theory Spec2Isabelle
  imports Complex_Main "HOL-Library.Signed_Division" "HOL-Library.Sublist" "HOL-Library.AList"
begin

section \<open>ChocoCraft front end (src/js/main.js): a shallow embedding\<close>

text \<open>
  The controllers of \<^verbatim>\<open>main.js\<close> are modelled by explicit state passing. Closures handed
  to \<^verbatim>\<open>setTimeout\<close>, \<^verbatim>\<open>setInterval\<close> and \<^verbatim>\<open>requestAnimationFrame\<close> are
  defunctionalised: a constructor per closure, holding the variables it captures, and an
  interpreter that runs it on the state of the moment.
\<close>

subsection \<open>DOMTokenList (\<^verbatim>\<open>element.classList\<close>)\<close>

type_synonym classList = "string list"

definition classList_remove :: "string list \<Rightarrow> classList \<Rightarrow> classList" where
  "classList_remove toks cl = filter (\<lambda>c. c \<notin> set toks) cl"

definition classList_add :: "string \<Rightarrow> classList \<Rightarrow> classList" where
  "classList_add tok cl = (if tok \<in> set cl then cl else cl @ [tok])"

definition classList_toggle :: "string \<Rightarrow> bool \<Rightarrow> classList \<Rightarrow> classList" where
  \<comment> \<open>\<^verbatim>\<open>classList.toggle(token, force)\<close>\<close>
  "classList_toggle tok force cl =
     (if force then classList_add tok cl else classList_remove [tok] cl)"

subsection \<open>TestimonialCarouselController\<close>

text \<open>
  The browser's repeating timers: \<^verbatim>\<open>setInterval\<close> hands out handles that are positive
  integers, never reused; \<^verbatim>\<open>clearInterval\<close> of a handle that is not running does nothing.
\<close>

record browser =
  issued :: nat
  intervals :: "nat list"

definition setInterval :: "browser \<Rightarrow> nat \<times> browser" where
  "setInterval b =
     (let h = Suc (issued b) in (h, b\<lparr>issued := h, intervals := intervals b @ [h]\<rparr>))"

definition clearInterval :: "nat \<Rightarrow> browser \<Rightarrow> browser" where
  "clearInterval h b = b\<lparr>intervals := filter (\<lambda>k. k \<noteq> h) (intervals b)\<rparr>"

text \<open>
  The controller's fields. \<^verbatim>\<open>slides\<close> and \<^verbatim>\<open>dots\<close> are the two node lists; of each node
  the model keeps its class list, the only part the controller touches.
  \<^verbatim>\<open>autoPlayInterval\<close> is \<^verbatim>\<open>null\<close> (\<open>None\<close>) or a timer handle.
\<close>

record carousel =
  currentIndex :: int
  slides :: "classList list"
  dots :: "classList list"
  autoPlayInterval :: "nat option"

definition constructor :: carousel where
  "constructor = \<lparr>currentIndex = 0, slides = [], dots = [], autoPlayInterval = None\<rparr>"

definition truthy :: "nat option \<Rightarrow> bool" where
  \<comment> \<open>\<^verbatim>\<open>if (this.autoPlayInterval)\<close>: \<^verbatim>\<open>null\<close> and the number 0 are falsy\<close>
  "truthy v = (case v of None \<Rightarrow> False | Some h \<Rightarrow> h \<noteq> 0)"

definition update_slide :: "int \<Rightarrow> int \<Rightarrow> nat \<Rightarrow> classList \<Rightarrow> classList" where
  \<comment> \<open>the body of the \<^verbatim>\<open>slides.forEach\<close> callback; \<open>n\<close> is \<^verbatim>\<open>this.slides.length\<close>,
      \<open>smod\<close> is the remainder operator \<^verbatim>\<open>%\<close> (sign of the dividend)\<close>
  "update_slide cur n index slide =
     (let cleared = classList_remove [''active'', ''prev'', ''next''] slide in
      if int index = cur then classList_add ''active'' cleared
      else if int index = (cur - 1 + n) smod n then classList_add ''prev'' cleared
      else if int index = (cur + 1) smod n then classList_add ''next'' cleared
      else cleared)"

definition update_dot :: "int \<Rightarrow> nat \<Rightarrow> classList \<Rightarrow> classList" where
  "update_dot cur index dot = classList_toggle ''active'' (int index = cur) dot"

definition forEach :: "(nat \<Rightarrow> 'a \<Rightarrow> 'a) \<Rightarrow> 'a list \<Rightarrow> 'a list" where
  \<comment> \<open>\<^verbatim>\<open>list.forEach((x, index) => ...)\<close> with a callback that mutates \<open>x\<close> only\<close>
  "forEach f xs = map (\<lambda>(i, x). f i x) (enumerate 0 xs)"

definition updateCarousel :: "carousel \<Rightarrow> carousel" where
  "updateCarousel c =
     c\<lparr>slides := forEach (update_slide (currentIndex c) (int (length (slides c)))) (slides c),
       dots := forEach (update_dot (currentIndex c)) (dots c)\<rparr>"

definition goToSlide :: "int \<Rightarrow> carousel \<Rightarrow> carousel" where
  "goToSlide index c = updateCarousel (c\<lparr>currentIndex := index\<rparr>)"

definition nextSlide :: "carousel \<Rightarrow> carousel" where
  "nextSlide c =
     updateCarousel (c\<lparr>currentIndex := (currentIndex c + 1) smod int (length (slides c))\<rparr>)"

definition stopAutoPlay :: "carousel \<times> browser \<Rightarrow> carousel \<times> browser" where
  "stopAutoPlay = (\<lambda>(c, b).
     if truthy (autoPlayInterval c)
     then (c\<lparr>autoPlayInterval := None\<rparr>, clearInterval (the (autoPlayInterval c)) b)
     else (c, b))"

definition startAutoPlay :: "carousel \<times> browser \<Rightarrow> carousel \<times> browser" where
  "startAutoPlay st =
     (let (c, b) = stopAutoPlay st; (h, b') = setInterval b
      in (c\<lparr>autoPlayInterval := Some h\<rparr>, b'))"

text \<open>
  The page as \<^verbatim>\<open>init\<close> and \<^verbatim>\<open>setupEventListeners\<close> query it: the slides under
  \<^verbatim>\<open>#testimonialCarousel\<close> (\<open>None\<close> when there is no such element), the nodes matching
  \<^verbatim>\<open>.carousel-dots .dot\<close>, and whether \<^verbatim>\<open>.testimonial-carousel-container\<close> exists.
\<close>

record page =
  carousel_slides :: "classList list option"
  dot_nodes :: "classList list"
  has_container :: bool

definition listening :: "page \<Rightarrow> bool" where
  \<comment> \<open>\<^verbatim>\<open>init\<close> reaches \<^verbatim>\<open>setupEventListeners\<close> and \<^verbatim>\<open>startAutoPlay\<close> only past its two guards\<close>
  "listening p = (case carousel_slides p of None \<Rightarrow> False | Some sl \<Rightarrow> sl \<noteq> [])"

definition init :: "page \<Rightarrow> carousel \<times> browser \<Rightarrow> carousel \<times> browser" where
  "init p = (\<lambda>(c, b).
     case carousel_slides p of
       None \<Rightarrow> (c, b)
     | Some sl \<Rightarrow>
         let c1 = c\<lparr>slides := sl, dots := dot_nodes p\<rparr> in
         if length sl = 0 then (c1, b)
         else (let (c2, b2) = startAutoPlay (c1, b) in (updateCarousel c2, b2)))"

text \<open>
  The events the controller listens to: a click on the indicator at a position, a tick of
  a repeating timer, and the pointer entering or leaving the container.
\<close>

datatype event = DotClick nat | Tick nat | MouseEnter | MouseLeave

definition dispatch :: "page \<Rightarrow> event \<Rightarrow> carousel \<times> browser \<Rightarrow> carousel \<times> browser" where
  "dispatch p ev = (\<lambda>(c, b).
     if \<not> listening p then (c, b)
     else case ev of
       DotClick i \<Rightarrow> if i < length (dots c) then (goToSlide (int i) c, b) else (c, b)
     | Tick h \<Rightarrow> if h \<in> set (intervals b) then (nextSlide c, b) else (c, b)
     | MouseEnter \<Rightarrow> if has_container p then stopAutoPlay (c, b) else (c, b)
     | MouseLeave \<Rightarrow> if has_container p then startAutoPlay (c, b) else (c, b))"

definition run :: "page \<Rightarrow> event list \<Rightarrow> carousel \<times> browser" where
  "run p evs =
     foldl (\<lambda>st ev. dispatch p ev st) (init p (constructor, \<lparr>issued = 0, intervals = []\<rparr>)) evs"

definition holders :: "string \<Rightarrow> classList list \<Rightarrow> nat list" where
  \<comment> \<open>the positions of the nodes that carry a class\<close>
  "holders tok ns = filter (\<lambda>i. tok \<in> set (ns ! i)) [0..<length ns]"

definition in_range :: "carousel \<Rightarrow> bool" where
  "in_range c = (0 \<le> currentIndex c \<and> currentIndex c < int (length (slides c)))"

definition designated :: "carousel \<Rightarrow> bool" where
  "designated c =
     (\<forall>i < length (slides c).
        ((''active'' \<in> set (slides c ! i)) = (int i = currentIndex c)) \<and>
        ((''prev'' \<in> set (slides c ! i)) =
           (int i \<noteq> currentIndex c \<and>
            int i = (currentIndex c - 1 + int (length (slides c))) smod int (length (slides c)))) \<and>
        ((''next'' \<in> set (slides c ! i)) =
           (int i \<noteq> currentIndex c \<and>
            int i \<noteq> (currentIndex c - 1 + int (length (slides c))) smod int (length (slides c)) \<and>
            int i = (currentIndex c + 1) smod int (length (slides c)))))"

definition timer_inv :: "carousel \<times> browser \<Rightarrow> bool" where
  "timer_inv = (\<lambda>(c, b).
     (case autoPlayInterval c of
        None \<Rightarrow> intervals b = []
      | Some h \<Rightarrow> intervals b = [h] \<and> 0 < h \<and> h \<le> issued b))"

definition page3 :: page where
  "page3 = \<lparr>carousel_slides = Some [[''testimonial-slide'', ''active''], [''testimonial-slide''],
        [''testimonial-slide'']],
      dot_nodes = [[''dot'', ''active''], [''dot''], [''dot'']], has_container = True\<rparr>"

definition carousel_inv :: "nat \<Rightarrow> carousel \<times> browser \<Rightarrow> bool" where
  "carousel_inv n = (\<lambda>(c, b).
     designated c \<and> in_range c \<and> length (slides c) = n \<and> length (dots c) \<le> n)"

definition start_state :: "carousel \<times> browser" where
  "start_state = (constructor, \<lparr>issued = 0, intervals = []\<rparr>)"

definition page2 :: page where
  "page2 = \<lparr>carousel_slides = Some [[''testimonial-slide'', ''active''], [''testimonial-slide'']],
      dot_nodes = [[''dot'', ''active''], [''dot'']], has_container = True\<rparr>"


definition clicks3 :: "event list" where
  "clicks3 = [DotClick 2, Tick 1]"

definition carousel3 :: carousel where
  "carousel3 = \<lparr>currentIndex = 1, slides = [[''testimonial-slide'', ''active''],
      [''testimonial-slide''], [''testimonial-slide'']], dots = [], autoPlayInterval = None\<rparr>"

definition hover :: "event list" where
  "hover = [MouseLeave, Tick 2, MouseEnter, MouseLeave]"

definition page1 :: page where
  "page1 = \<lparr>carousel_slides = Some [[''testimonial-slide'']], dot_nodes = [[''dot'']],
      has_container = False\<rparr>"

definition clicks2 :: "event list" where
  "clicks2 = [DotClick 1]"

definition clicks1 :: "event list" where
  "clicks1 = [Tick 1, DotClick 0]"

subsection \<open>CONFIG\<close>

definition PARTICLE_LIFE :: nat where "PARTICLE_LIFE = 1000"
definition RIPPLE_LIFE :: nat where "RIPPLE_LIFE = 600"
definition FAST :: nat where "FAST = 150"
definition EASE_OUT :: string where "EASE_OUT = ''ease-out''"
definition PARTICLES_COUNT :: nat where "PARTICLES_COUNT = 8"
definition DISTANCE_BASE :: real where "DISTANCE_BASE = 100"
definition DISTANCE_RANDOM :: real where "DISTANCE_RANDOM = 50"
definition PARTICLES_SIZE :: string where "PARTICLES_SIZE = ''20px''"

subsection \<open>The document, timers and console as AnimationController uses them\<close>

text \<open>
  Numbers are modelled as reals: the rounding of the doubles of JavaScript is left out.
  A CSS value is a list of tokens, so that the numbers a template literal interpolates
  stay numbers; the empty list is the empty string, the value of an unset property.
\<close>

datatype css_token = Ident string | Dim real string | Call string "css_token list"

type_synonym css = "css_token list"

type_synonym declarations = "(string \<times> css) list"

record DOMRect =
  rect_left :: real
  rect_top :: real
  rect_width :: real
  rect_height :: real

record pointer =
  clientX :: real
  clientY :: real

text \<open>
  A node: its tag, class attribute, \<^verbatim>\<open>alt\<close> text, inline style, markup content and parent
  pointer, and
  what the layout engine answers to \<^verbatim>\<open>getBoundingClientRect\<close> (\<open>None\<close>: the call throws).
  Nodes are referred to by their position in the world's node list; a reference beyond the
  list is not an element (\<^verbatim>\<open>null\<close>).
\<close>

record node =
  tagName :: string
  className :: string
  alt :: string
  style :: declarations
  dataset :: "(string \<times> string) list"
  innerHTML :: string
  parentNode :: "nat option"
  geometry :: "DOMRect option"

datatype error = TypeError | LayoutError | SyntaxError

datatype log = Warn string error

text \<open>
  The closures handed to \<^verbatim>\<open>setTimeout\<close> and to \<^verbatim>\<open>requestAnimationFrame\<close>, each with the
  variables it captures.
\<close>

datatype timeout_task =
    RemoveParticles "nat list"  \<comment> \<open>\<^verbatim>\<open>createParticleAnimation\<close>: \<^verbatim>\<open>particles\<close>\<close>
  | RemoveRipple nat nat css  \<comment> \<open>\<^verbatim>\<open>createRippleEffect\<close>: \<^verbatim>\<open>ripple\<close>, \<^verbatim>\<open>button\<close>, \<^verbatim>\<open>originalPosition\<close>\<close>
  | ClearTransform nat  \<comment> \<open>\<^verbatim>\<open>handleCardClick\<close> and \<^verbatim>\<open>addButtonPressEffect\<close>: the element\<close>

datatype frame_task =
    AnimateParticle nat nat  \<comment> \<open>\<^verbatim>\<open>createParticle\<close>: \<^verbatim>\<open>particle\<close>, \<^verbatim>\<open>index\<close>\<close>

record world =
  nodes :: "node list"
  body :: nat
  now :: nat
  timeouts :: "(nat \<times> timeout_task) list"
  frames :: "frame_task list"
  console :: "log list"

definition lookup :: "world \<Rightarrow> nat \<Rightarrow> node option" where
  "lookup w e = (if e < length (nodes w) then Some (nodes w ! e) else None)"

definition modify :: "nat \<Rightarrow> (node \<Rightarrow> node) \<Rightarrow> world \<Rightarrow> world" where
  "modify e f w = (if e < length (nodes w) then w\<lparr>nodes := (nodes w)[e := f (nodes w ! e)]\<rparr> else w)"

definition style_get :: "world \<Rightarrow> nat \<Rightarrow> string \<Rightarrow> css" where
  \<comment> \<open>\<^verbatim>\<open>element.style.prop\<close>, read\<close>
  "style_get w e prop =
     (case lookup w e of None \<Rightarrow> []
      | Some n \<Rightarrow> (case map_of (style n) prop of None \<Rightarrow> [] | Some v \<Rightarrow> v))"

definition style_set :: "nat \<Rightarrow> string \<Rightarrow> css \<Rightarrow> world \<Rightarrow> world" where
  \<comment> \<open>\<^verbatim>\<open>element.style.prop = value\<close>\<close>
  "style_set e prop v = modify e (\<lambda>n. n\<lparr>style := AList.update prop v (style n)\<rparr>)"

definition parent_of :: "world \<Rightarrow> nat \<Rightarrow> nat option" where
  \<comment> \<open>\<^verbatim>\<open>element.parentNode\<close>\<close>
  "parent_of w e = (case lookup w e of None \<Rightarrow> None | Some n \<Rightarrow> parentNode n)"

definition appendChild :: "nat \<Rightarrow> nat \<Rightarrow> world \<Rightarrow> world" where
  "appendChild parent child = modify child (\<lambda>n. n\<lparr>parentNode := Some parent\<rparr>)"

definition removeChild :: "nat \<Rightarrow> nat \<Rightarrow> world \<Rightarrow> world" where
  "removeChild parent child = modify child (\<lambda>n. n\<lparr>parentNode := None\<rparr>)"

definition children :: "world \<Rightarrow> nat \<Rightarrow> nat list" where
  "children w parent = filter (\<lambda>e. parent_of w e = Some parent) [0..<length (nodes w)]"

definition setTimeout :: "timeout_task \<Rightarrow> nat \<Rightarrow> world \<Rightarrow> world" where
  "setTimeout task delay w = w\<lparr>timeouts := timeouts w @ [(now w + delay, task)]\<rparr>"

definition requestAnimationFrame :: "frame_task \<Rightarrow> world \<Rightarrow> world" where
  "requestAnimationFrame task w = w\<lparr>frames := frames w @ [task]\<rparr>"

subsection \<open>Utils\<close>

definition getBoundingClientRect :: "nat \<Rightarrow> world \<Rightarrow> error + DOMRect" where
  "getBoundingClientRect e w =
     (case lookup w e of
        None \<Rightarrow> Inl TypeError
      | Some n \<Rightarrow> (case geometry n of None \<Rightarrow> Inl LayoutError | Some r \<Rightarrow> Inr r))"

definition getBoundingRect :: "nat \<Rightarrow> world \<Rightarrow> DOMRect option \<times> world" where
  \<comment> \<open>\<^verbatim>\<open>try { return element.getBoundingClientRect(); } catch (error) { console.warn(...); return null; }\<close>\<close>
  "getBoundingRect e w =
     (case getBoundingClientRect e w of
        Inr r \<Rightarrow> (Some r, w)
      | Inl err \<Rightarrow> (None, w\<lparr>console := console w @ [Warn ''Error getting bounding rect:'' err]\<rparr>))"

datatype attr = Text string | Decls declarations | Data "(string \<times> string) list"

definition setAttribute :: "string \<Rightarrow> attr \<Rightarrow> node \<Rightarrow> node" where
  \<comment> \<open>\<^verbatim>\<open>element.setAttribute(key, value)\<close>, for the attributes the node record keeps: a
      \<^verbatim>\<open>style\<close> attribute becomes the inline style, an \<^verbatim>\<open>alt\<close> attribute the \<^verbatim>\<open>alt\<close> text\<close>
  "setAttribute key v n =
     (case v of
        Decls ds \<Rightarrow> if key = ''style'' then n\<lparr>style := ds\<rparr> else n
      | Text t \<Rightarrow> if key = ''alt'' then n\<lparr>alt := t\<rparr> else n
      | Data kvs \<Rightarrow> n)"

definition set_entry :: "node \<Rightarrow> string \<times> attr \<Rightarrow> node" where
  \<comment> \<open>the body of \<^verbatim>\<open>Object.entries(attributes).forEach\<close> in \<^verbatim>\<open>Utils.createElement\<close>\<close>
  "set_entry element = (\<lambda>(key, v).
     if key = ''className'' then
       (case v of Text t \<Rightarrow> element\<lparr>className := t\<rparr> | _ \<Rightarrow> element)
     else if key = ''dataset'' then
       (case v of
          Data kvs \<Rightarrow> element\<lparr>dataset := foldl (\<lambda>d (k, x). AList.update k x d) (dataset element) kvs\<rparr>
        | _ \<Rightarrow> element)
     else setAttribute key v element)"

definition createElement :: "string \<Rightarrow> (string \<times> attr) list \<Rightarrow> string \<Rightarrow> world \<Rightarrow> nat \<times> world" where
  \<comment> \<open>\<^verbatim>\<open>Utils.createElement(tag, attributes, content)\<close>; the new node is detached\<close>
  "createElement tag attributes content w =
     (let element = \<lparr>tagName = tag, className = [], alt = [], style = [], dataset = [], innerHTML = [],
                      parentNode = None, geometry = None\<rparr>;
          element = foldl set_entry element attributes;
          element = (if content \<noteq> [] then element\<lparr>innerHTML := content\<rparr> else element)
      in (length (nodes w), w\<lparr>nodes := nodes w @ [element]\<rparr>))"

definition chocolate_bar :: string where
  \<comment> \<open>the emoji U+1F36B, in UTF-8\<close>
  "chocolate_bar = [CHR 0xF0, CHR 0x9F, CHR 0x8D, CHR 0xAB]"

subsection \<open>AnimationController\<close>

definition createParticle :: "real \<Rightarrow> real \<Rightarrow> nat \<Rightarrow> world \<Rightarrow> nat \<times> world" where
  "createParticle centerX centerY index w =
     (let (particle, w) = createElement ''div''
            [(''className'', Text ''particle''),
             (''style'', Decls
               [(''position'', [Ident ''fixed'']),
                (''left'', [Dim centerX ''px'']),
                (''top'', [Dim centerY ''px'']),
                (''font-size'', [Ident PARTICLES_SIZE]),
                (''pointer-events'', [Ident ''none'']),
                (''z-index'', [Dim 1000 '''']),
                (''transition'', [Ident ''all'', Dim (real PARTICLE_LIFE) ''ms'', Ident EASE_OUT])])]
            chocolate_bar w
      in (particle, requestAnimationFrame (AnimateParticle particle index) w))"

definition spawn :: "real \<Rightarrow> real \<Rightarrow> nat list \<times> world \<Rightarrow> nat \<Rightarrow> nat list \<times> world" where
  \<comment> \<open>the body of the \<^verbatim>\<open>for\<close> loop of \<^verbatim>\<open>createParticleAnimation\<close>\<close>
  "spawn centerX centerY = (\<lambda>(particles, w) i.
     let (particle, w) = createParticle centerX centerY i w
     in (particles @ [particle], appendChild (body w) particle w))"

definition createParticleAnimation :: "nat \<Rightarrow> world \<Rightarrow> world" where
  "createParticleAnimation element w =
     (case getBoundingRect element w of
        (None, w) \<Rightarrow> w
      | (Some rect, w) \<Rightarrow>
          let centerX = rect_left rect + rect_width rect / 2;
              centerY = rect_top rect + rect_height rect / 2;
              (particles, w) = foldl (spawn centerX centerY) ([], w) [0..<PARTICLES_COUNT]
          in setTimeout (RemoveParticles particles) PARTICLE_LIFE w)"

definition createRippleEffect :: "nat \<Rightarrow> pointer \<Rightarrow> world \<Rightarrow> world" where
  "createRippleEffect button event w =
     (case getBoundingRect button w of
        (None, w) \<Rightarrow> w
      | (Some rect, w) \<Rightarrow>
          let size = max (rect_width rect) (rect_height rect);
              x = clientX event - rect_left rect - size / 2;
              y = clientY event - rect_top rect - size / 2;
              (ripple, w) = createElement ''div''
                [(''className'', Text ''ripple''),
                 (''style'', Decls
                   [(''position'', [Ident ''absolute'']),
                    (''width'', [Dim size ''px'']),
                    (''height'', [Dim size ''px'']),
                    (''left'', [Dim x ''px'']),
                    (''top'', [Dim y ''px'']),
                    (''background'', [Call ''rgba'' [Dim 255 '''', Dim 255 '''', Dim 255 '''', Dim 0.3 '''']]),
                    (''border-radius'', [Dim 50 ''%'']),
                    (''transform'', [Call ''scale'' [Dim 0 '''']]),
                    (''animation'', [Ident ''ripple'', Dim (real RIPPLE_LIFE) ''ms'', Ident ''ease-out'']),
                    (''pointer-events'', [Ident ''none''])])]
                [] w;
              originalPosition = style_get w button ''position'';
              w = style_set button ''position'' [Ident ''relative''] w;
              w = style_set button ''overflow'' [Ident ''hidden''] w;
              w = appendChild button ripple w
          in setTimeout (RemoveRipple ripple button originalPosition) RIPPLE_LIFE w)"

definition detach :: "nat \<Rightarrow> world \<Rightarrow> world" where
  \<comment> \<open>\<^verbatim>\<open>if (x.parentNode) { x.parentNode.removeChild(x); }\<close>\<close>
  "detach x w = (case parent_of w x of None \<Rightarrow> w | Some parent \<Rightarrow> removeChild parent x w)"

fun run_timeout :: "timeout_task \<Rightarrow> world \<Rightarrow> world" where
  "run_timeout (RemoveParticles particles) w = foldl (\<lambda>w particle. detach particle w) w particles"
| "run_timeout (RemoveRipple ripple button originalPosition) w =
     style_set button ''position'' originalPosition (detach ripple w)"
| "run_timeout (ClearTransform element) w = style_set element ''transform'' [] w"

fun run_frame :: "frame_task \<Rightarrow> real \<Rightarrow> world \<Rightarrow> world" where
  \<comment> \<open>\<open>random\<close> is what \<^verbatim>\<open>Math.random()\<close> returns in the callback\<close>
  "run_frame (AnimateParticle particle index) random w =
     (let angle = (360 / real PARTICLES_COUNT) * real index;
          distance = DISTANCE_BASE + random * DISTANCE_RANDOM;
          x = cos (angle * pi / 180) * distance;
          y = sin (angle * pi / 180) * distance;
          w = style_set particle ''transform''
                [Call ''translate'' [Dim x ''px'', Dim y ''px''], Call ''rotate'' [Dim angle ''deg''],
                 Call ''scale'' [Dim 0 '''']] w
      in style_set particle ''opacity'' [Dim 0 ''''] w)"

subsection \<open>The callers: ProductCardController.handleCardClick and the click listener of ButtonController\<close>

definition handleCardClick :: "nat \<Rightarrow> world \<Rightarrow> world" where
  "handleCardClick element w =
     (let w = createParticleAnimation element w;
          w = style_set element ''transform'' [Call ''scale'' [Dim 0.98 '''']] w
      in setTimeout (ClearTransform element) FAST w)"

definition addButtonPressEffect :: "nat \<Rightarrow> world \<Rightarrow> world" where
  "addButtonPressEffect button w =
     setTimeout (ClearTransform button) FAST
       (style_set button ''transform'' [Call ''scale'' [Dim 0.98 '''']] w)"

definition button_click :: "nat \<Rightarrow> pointer \<Rightarrow> world \<Rightarrow> world" where
  "button_click button event w = addButtonPressEffect button (createRippleEffect button event w)"

subsection \<open>The event loop\<close>

text \<open>
  Time passes in steps. When the clock reaches \<open>t\<close>, the timeouts due by \<open>t\<close> run in the
  order of their due times (first set, first run, among equals). None of the callbacks
  above reads the clock, sets a timer or requests a frame, so one pass is enough and the
  clock is moved once, at the end.
  A rendering frame runs the pending frame callbacks in order; \<open>random i\<close> is the draw
  of the \<open>i\<close>-th of them.
\<close>

definition fire :: "world \<Rightarrow> nat \<times> timeout_task \<Rightarrow> world" where
  "fire w t = run_timeout (snd t) w"

definition elapse :: "nat \<Rightarrow> world \<Rightarrow> world" where
  "elapse d w =
     (let t = now w + d;
          due = sort_key fst (filter (\<lambda>(time, task). time \<le> t) (timeouts w));
          later = filter (\<lambda>(time, task). \<not> time \<le> t) (timeouts w);
          w = foldl fire (w\<lparr>timeouts := later\<rparr>) due
      in w\<lparr>now := t\<rparr>)"

definition draw :: "(nat \<Rightarrow> real) \<Rightarrow> world \<Rightarrow> nat \<times> frame_task \<Rightarrow> world" where
  "draw random w t = run_frame (snd t) (random (fst t)) w"

definition paint :: "(nat \<Rightarrow> real) \<Rightarrow> world \<Rightarrow> world" where
  "paint random w = foldl (draw random) (w\<lparr>frames := []\<rparr>) (enumerate 0 (frames w))"

datatype action =
    CardClick nat
  | ButtonClick nat pointer
  | Particles nat  \<comment> \<open>a direct call of \<^verbatim>\<open>createParticleAnimation\<close>\<close>
  | Ripple nat pointer  \<comment> \<open>a direct call of \<^verbatim>\<open>createRippleEffect\<close>\<close>
  | Elapse nat
  | Paint "nat \<Rightarrow> real"

fun act :: "world \<Rightarrow> action \<Rightarrow> world" where
  "act w (CardClick element) = handleCardClick element w"
| "act w (ButtonClick button event) = button_click button event w"
| "act w (Particles element) = createParticleAnimation element w"
| "act w (Ripple button event) = createRippleEffect button event w"
| "act w (Elapse d) = elapse d w"
| "act w (Paint random) = paint random w"

definition elapsed :: "action list \<Rightarrow> nat" where
  "elapsed acts = sum_list (map (\<lambda>a. case a of Elapse d \<Rightarrow> d | _ \<Rightarrow> 0) acts)"

definition particle_node :: "real \<Rightarrow> real \<Rightarrow> nat \<Rightarrow> node" where
  \<comment> \<open>a particle as \<^verbatim>\<open>createParticleAnimation\<close> leaves it: created by \<^verbatim>\<open>createParticle\<close>, appended to the body\<close>
  "particle_node centerX centerY parent =
     \<lparr>tagName = ''div'', className = ''particle'', alt = [],
      style = [(''position'', [Ident ''fixed'']),
               (''left'', [Dim centerX ''px'']),
               (''top'', [Dim centerY ''px'']),
               (''font-size'', [Ident PARTICLES_SIZE]),
               (''pointer-events'', [Ident ''none'']),
               (''z-index'', [Dim 1000 '''']),
               (''transition'', [Ident ''all'', Dim (real PARTICLE_LIFE) ''ms'', Ident EASE_OUT])],
      dataset = [], innerHTML = chocolate_bar, parentNode = Some parent, geometry = None\<rparr>"

definition ripple_node :: "real \<Rightarrow> real \<Rightarrow> real \<Rightarrow> node" where
  \<comment> \<open>the ripple as \<^verbatim>\<open>Utils.createElement\<close> returns it in \<^verbatim>\<open>createRippleEffect\<close>\<close>
  "ripple_node diameter x y =
     \<lparr>tagName = ''div'', className = ''ripple'', alt = [],
      style = [(''position'', [Ident ''absolute'']),
               (''width'', [Dim diameter ''px'']),
               (''height'', [Dim diameter ''px'']),
               (''left'', [Dim x ''px'']),
               (''top'', [Dim y ''px'']),
               (''background'', [Call ''rgba'' [Dim 255 '''', Dim 255 '''', Dim 255 '''', Dim 0.3 '''']]),
               (''border-radius'', [Dim 50 ''%'']),
               (''transform'', [Call ''scale'' [Dim 0 '''']]),
               (''animation'', [Ident ''ripple'', Dim (real RIPPLE_LIFE) ''ms'', Ident ''ease-out'']),
               (''pointer-events'', [Ident ''none''])],
      dataset = [], innerHTML = [], parentNode = None, geometry = None\<rparr>"

text \<open>
  A small document for the examples: the body, a product card, a button whose inline style
  sets \<^verbatim>\<open>overflow: visible\<close> and nothing else, and an element the layout engine cannot
  measure. The clock stands at 5000 ms, nothing is pending.
\<close>

definition demo_node :: "string \<Rightarrow> string \<Rightarrow> declarations \<Rightarrow> nat option \<Rightarrow> DOMRect option \<Rightarrow> node" where
  "demo_node tag cls decls parent rect =
     \<lparr>tagName = tag, className = cls, alt = [], style = decls, dataset = [], innerHTML = [],
      parentNode = parent, geometry = rect\<rparr>"

definition demo_world :: world where
  "demo_world =
     \<lparr>nodes =
        [demo_node ''body'' [] [] None
           (Some \<lparr>rect_left = 0, rect_top = 0, rect_width = 1024, rect_height = 768\<rparr>),
         demo_node ''div'' ''product-card'' [] (Some 0)
           (Some \<lparr>rect_left = 10, rect_top = 20, rect_width = 200, rect_height = 100\<rparr>),
         demo_node ''button'' ''btn'' [(''overflow'', [Ident ''visible''])] (Some 0)
           (Some \<lparr>rect_left = 300, rect_top = 20, rect_width = 120, rect_height = 40\<rparr>),
         demo_node ''div'' ''ghost'' [] (Some 0) None],
      body = 0, now = 5000, timeouts = [], frames = [], console = []\<rparr>"

definition demo_click :: pointer where
  "demo_click = \<lparr>clientX = 310, clientY = 30\<rparr>"

definition demo_acts :: "action list" where
  "demo_acts = [Paint (\<lambda>i. 1 / 2), Elapse 400, ButtonClick 2 demo_click, Elapse 600]"

subsection \<open>ImageErrorHandler\<close>


fun string_includes :: "string \<Rightarrow> string \<Rightarrow> bool" where
  \<comment> \<open>\<^verbatim>\<open>s.includes(sub)\<close>\<close>
  "string_includes [] sub = (sub = [])"
| "string_includes (c # cs) sub = (prefix sub (c # cs) \<or> string_includes cs sub)"










subsection \<open>NavigationController and ScrollController: smooth scrolling\<close>

text \<open>
  The document as the two controllers query it: its elements in tree order, each with
  its tag, \<^verbatim>\<open>id\<close>, classes and \<^verbatim>\<open>href\<close> attribute (\<open>None\<close> when it has none). The browser's
  selector engine is a parameter: it parses a selector string into a predicate on
  elements, or fails with a syntax error.
\<close>

record element =
  el_tag :: string
  el_id :: string
  el_classes :: "string list"
  el_href :: "string option"

type_synonym selector_engine = "string \<Rightarrow> (element \<Rightarrow> bool) option"

definition querySelector :: "selector_engine \<Rightarrow> element list \<Rightarrow> string \<Rightarrow> error + element option" where
  \<comment> \<open>the first element in tree order that matches, \<^verbatim>\<open>null\<close> when none does\<close>
  "querySelector css doc selector =
     (case css selector of None \<Rightarrow> Inl SyntaxError | Some matches \<Rightarrow> Inr (find matches doc))"

definition startsWith :: "string \<Rightarrow> string \<Rightarrow> bool" where
  "startsWith s p = prefix p s"

text \<open>
  What a click leaves behind: whether the default action was prevented, the elements
  \<^verbatim>\<open>scrollIntoView\<close> was called on, in order, and the exceptions no listener caught.
\<close>

record outcome =
  defaultPrevented :: bool
  scrolled :: "element list"
  uncaught :: "error list"

definition navigation_listener :: "selector_engine \<Rightarrow> element list \<Rightarrow> element \<Rightarrow> outcome \<Rightarrow> outcome" where
  \<comment> \<open>the click listener of \<^verbatim>\<open>NavigationController.setupSmoothScrolling\<close>\<close>
  "navigation_listener css doc link out =
     (case el_href link of
        None \<Rightarrow> out\<lparr>uncaught := uncaught out @ [TypeError]\<rparr>
      | Some href \<Rightarrow>
          if startsWith href ''#'' then
            (let out = out\<lparr>defaultPrevented := True\<rparr> in
             case querySelector css doc (if href = ''#main-content'' then ''.hero'' else href) of
               Inl err \<Rightarrow> out\<lparr>uncaught := uncaught out @ [err]\<rparr>
             | Inr None \<Rightarrow> out
             | Inr (Some target) \<Rightarrow> out\<lparr>scrolled := scrolled out @ [target]\<rparr>)
          else out)"

definition scroll_listener :: "selector_engine \<Rightarrow> element list \<Rightarrow> element \<Rightarrow> outcome \<Rightarrow> outcome" where
  \<comment> \<open>the click listener of \<^verbatim>\<open>ScrollController.setupSmoothScrolling\<close>; a \<^verbatim>\<open>null\<close> attribute
      reaches \<^verbatim>\<open>querySelector\<close> as the string \<^verbatim>\<open>null\<close>\<close>
  "scroll_listener css doc anchor out =
     (let out = out\<lparr>defaultPrevented := True\<rparr> in
      case querySelector css doc (case el_href anchor of None \<Rightarrow> ''null'' | Some href \<Rightarrow> href) of
        Inl err \<Rightarrow> out\<lparr>uncaught := uncaught out @ [err]\<rparr>
      | Inr None \<Rightarrow> out
      | Inr (Some target) \<Rightarrow> out\<lparr>scrolled := scrolled out @ [target]\<rparr>)"

definition navigation_links :: "element list \<Rightarrow> element list" where
  \<comment> \<open>\<^verbatim>\<open>this.links\<close>, bound in \<^verbatim>\<open>init\<close> only when \<^verbatim>\<open>.navbar\<close> exists\<close>
  "navigation_links doc =
     (if list_ex (\<lambda>e. ''navbar'' \<in> set (el_classes e)) doc
      then filter (\<lambda>e. ''navbar__link'' \<in> set (el_classes e)) doc else [])"

definition anchors :: "element list \<Rightarrow> element list" where
  \<comment> \<open>\<^verbatim>\<open>document.querySelectorAll('a[href^="#"]')\<close>\<close>
  "anchors doc =
     filter (\<lambda>e. el_tag e = ''a'' \<and>
                 (case el_href e of None \<Rightarrow> False | Some href \<Rightarrow> startsWith href ''#'')) doc"

definition click :: "selector_engine \<Rightarrow> element list \<Rightarrow> element \<Rightarrow> outcome" where
  \<comment> \<open>A click on an element runs its listeners in the order they were added:
      \<^verbatim>\<open>initializeControllers\<close> builds the NavigationController before the ScrollController.
      (The listener of \<^verbatim>\<open>setupMobileToggle\<close> only closes the menu and is left out.)\<close>
  "click css doc target =
     (let out = \<lparr>defaultPrevented = False, scrolled = [], uncaught = []\<rparr>;
          out = (if target \<in> set (navigation_links doc)
                 then navigation_listener css doc target out else out);
          out = (if target \<in> set (anchors doc) then scroll_listener css doc target out else out)
      in out)"

text \<open>
  An engine for the examples. It knows the two shapes of selector the listeners pass on
  the example page, \<^verbatim>\<open>#name\<close> and \<^verbatim>\<open>.name\<close> with a name of letters, digits, hyphens and
  underscores that starts with a letter, and rejects every other string.
\<close>

definition letter :: "char \<Rightarrow> bool" where
  "letter c = (c \<in> set ''abcdefghijklmnopqrstuvwxyzABCDEFGHIJKLMNOPQRSTUVWXYZ'')"

definition name_char :: "char \<Rightarrow> bool" where
  "name_char c = (letter c \<or> c \<in> set ''0123456789-_'')"

fun name_selectors :: selector_engine where
  "name_selectors [] = None"
| "name_selectors (c # name) =
     (if name \<noteq> [] \<and> letter (hd name) \<and> list_all name_char name then
        (if c = CHR ''#'' then Some (\<lambda>e. el_id e = name)
         else if c = CHR ''.'' then Some (\<lambda>e. name \<in> set (el_classes e))
         else None)
      else None)"

definition home_link :: element where
  "home_link = \<lparr>el_tag = ''a'', el_id = [], el_classes = [''navbar__link''],
                 el_href = Some ''#main-content''\<rparr>"

definition products_link :: element where
  "products_link = \<lparr>el_tag = ''a'', el_id = [], el_classes = [''navbar__link''],
                     el_href = Some ''#products''\<rparr>"

definition main_element :: element where
  "main_element = \<lparr>el_tag = ''main'', el_id = ''main-content'', el_classes = [], el_href = None\<rparr>"

definition hero_section :: element where
  "hero_section = \<lparr>el_tag = ''section'', el_id = [], el_classes = [''hero''], el_href = None\<rparr>"

definition products_section :: element where
  "products_section = \<lparr>el_tag = ''section'', el_id = ''products'', el_classes = [''products''],
                        el_href = None\<rparr>"

definition home_page :: "element list" where
  \<comment> \<open>a navigation bar with two links, and a main element that holds the two sections\<close>
  "home_page =
     [\<lparr>el_tag = ''nav'', el_id = [], el_classes = [''navbar''], el_href = None\<rparr>,
      home_link, products_link, main_element, hero_section, products_section]"

section \<open>The carousel: proofs\<close>

lemma length_forEach [simp]: "length (forEach f xs) = length xs"
  by (simp add: forEach_def)

lemma nth_forEach [simp]: "i < length xs \<Longrightarrow> forEach f xs ! i = f i (xs ! i)"
  by (simp add: forEach_def nth_enumerate_eq)

lemma active_update_slide:
  "''active'' \<in> set (update_slide cur n i cl) \<longleftrightarrow> int i = cur"
  by (simp add: update_slide_def classList_add_def classList_remove_def Let_def)

lemma prev_update_slide:
  "''prev'' \<in> set (update_slide cur n i cl) \<longleftrightarrow> int i \<noteq> cur \<and> int i = (cur - 1 + n) smod n"
  by (auto simp add: update_slide_def classList_add_def classList_remove_def Let_def)

lemma next_update_slide:
  "''next'' \<in> set (update_slide cur n i cl) \<longleftrightarrow>
     int i \<noteq> cur \<and> int i \<noteq> (cur - 1 + n) smod n \<and> int i = (cur + 1) smod n"
  by (auto simp add: update_slide_def classList_add_def classList_remove_def Let_def)

lemma filter_eq_upt: "filter (\<lambda>i. i = k) [0..<n] = (if k < n then [k] else [])"
  by (induction n) auto

lemma smod_nonneg: "0 \<le> a \<Longrightarrow> 0 < n \<Longrightarrow> (a::int) smod n = a mod n"
  by (simp add: signed_modulo_int_def sgn_if)

lemma prev_index:
  "0 \<le> cur \<Longrightarrow> cur < n \<Longrightarrow> (cur - 1 + n) smod n = (if cur = 0 then n - 1 else cur - (1::int))"
  by (simp add: smod_nonneg zmod_minus1)

lemma next_index:
  "0 \<le> cur \<Longrightarrow> cur < n \<Longrightarrow> (cur + 1) smod n = (if cur = n - 1 then 0 else cur + (1::int))"
  by (simp add: smod_nonneg)

lemma holders_eq:
  assumes "\<And>i. i < length ns \<Longrightarrow> (tok \<in> set (ns ! i)) = (i = k)"
  shows "holders tok ns = (if k < length ns then [k] else [])"
proof -
  have "holders tok ns = filter (\<lambda>i. i = k) [0..<length ns]"
    unfolding holders_def by (rule filter_cong) (simp_all add: assms)
  then show ?thesis by (simp add: filter_eq_upt)
qed

lemma holders_none:
  assumes "\<And>i. i < length ns \<Longrightarrow> tok \<notin> set (ns ! i)"
  shows "holders tok ns = []"
  unfolding holders_def by (simp add: assms)

lemma updateCarousel_fields [simp]:
  "currentIndex (updateCarousel c) = currentIndex c"
  "length (slides (updateCarousel c)) = length (slides c)"
  "length (dots (updateCarousel c)) = length (dots c)"
  "autoPlayInterval (updateCarousel c) = autoPlayInterval c"
  by (simp_all add: updateCarousel_def)

lemma nth_slides_updateCarousel:
  "i < length (slides c) \<Longrightarrow>
   slides (updateCarousel c) ! i =
     update_slide (currentIndex c) (int (length (slides c))) i (slides c ! i)"
  by (simp add: updateCarousel_def)

lemma designated_updateCarousel: "designated (updateCarousel c)"
  unfolding designated_def
  by (simp add: nth_slides_updateCarousel active_update_slide prev_update_slide
      next_update_slide)

lemma prev_mod: 
  assumes "k < n"
  shows "(k + n - 1) mod n = (if k = 0 then n - 1 else k - (1::nat))"
proof (cases "k = 0")
  case True
  with assms show ?thesis by simp
next
  case False
  then have "k + n - 1 = (k - 1) + n" by simp
  then have "(k + n - 1) mod n = (k - 1) mod n" by (simp only: mod_add_self2)
  with False assms show ?thesis by simp
qed

lemma next_mod: "k < n \<Longrightarrow> (k + 1) mod n = (if k + 1 = n then 0 else k + (1::nat))"
  by (auto simp add: mod_if)

lemma prev_index_nat:
  assumes "k < n"
  shows "(int k - 1 + int n) smod int n = int ((k + n - 1) mod n)"
proof -
  have "int k - 1 + int n = int (k + n - 1)" using assms by simp
  moreover have "int (k + n - 1) smod int n = int (k + n - 1) mod int n"
    using assms by (intro smod_nonneg) simp_all
  ultimately show ?thesis by (simp only: zmod_int)
qed

lemma next_index_nat:
  assumes "k < n"
  shows "(int k + 1) smod int n = int ((k + 1) mod n)"
proof -
  have "int k + 1 = int (k + 1)" by simp
  moreover have "int (k + 1) smod int n = int (k + 1) mod int n"
    using assms by (intro smod_nonneg) simp_all
  ultimately show ?thesis by (simp only: zmod_int)
qed

lemma prev_neq: "k < n \<Longrightarrow> 2 \<le> n \<Longrightarrow> (k + n - 1) mod n \<noteq> (k::nat)"
  using prev_mod [of k n] by auto

lemma next_neq: "k < n \<Longrightarrow> 2 \<le> n \<Longrightarrow> (k + 1) mod n \<noteq> (k::nat)"
  using next_mod [of k n] by auto

lemma next_neq_prev: "k < n \<Longrightarrow> 3 \<le> n \<Longrightarrow> (k + 1) mod n \<noteq> (k + n - 1) mod (n::nat)"
  using next_mod [of k n] prev_mod [of k n] by auto

lemma next_eq_prev: "k < n \<Longrightarrow> n \<le> 2 \<Longrightarrow> (k + 1) mod n = (k + n - 1) mod (n::nat)"
  using next_mod [of k n] prev_mod [of k n] by auto

lemma designated_nat:
  assumes "designated c" "currentIndex c = int k" "k < length (slides c)"
    and "i < length (slides c)"
  shows "(''active'' \<in> set (slides c ! i)) = (i = k)"
    and "(''prev'' \<in> set (slides c ! i)) =
           (i \<noteq> k \<and> i = (k + length (slides c) - 1) mod length (slides c))"
    and "(''next'' \<in> set (slides c ! i)) =
           (i \<noteq> k \<and> i \<noteq> (k + length (slides c) - 1) mod length (slides c) \<and>
            i = (k + 1) mod length (slides c))"
  using assms(1,4) unfolding designated_def assms(2)
    prev_index_nat [OF assms(3)] next_index_nat [OF assms(3)]
  by simp_all

lemma in_range_nat:
  assumes "in_range c"
  obtains k where "currentIndex c = int k" "k < length (slides c)" "nat (currentIndex c) = k"
  using assms unfolding in_range_def by (metis nat_less_iff nat_0_le)

lemma designated_active:
  assumes "designated c" "in_range c"
  shows "holders ''active'' (slides c) = [nat (currentIndex c)]"
proof -
  from assms(2) obtain k where k: "currentIndex c = int k" "k < length (slides c)"
    "nat (currentIndex c) = k" by (rule in_range_nat)
  have "holders ''active'' (slides c) = (if k < length (slides c) then [k] else [])"
    by (rule holders_eq) (rule designated_nat(1) [OF assms(1) k(1,2)])
  with k show ?thesis by simp
qed

lemma designated_prev:
  assumes "designated c" "in_range c" "2 \<le> length (slides c)"
  shows "holders ''prev'' (slides c) =
    [(nat (currentIndex c) + length (slides c) - 1) mod length (slides c)]"
proof -
  from assms(2) obtain k where k: "currentIndex c = int k" "k < length (slides c)"
    "nat (currentIndex c) = k" by (rule in_range_nat)
  let ?n = "length (slides c)"
  have "holders ''prev'' (slides c) = (if (k + ?n - 1) mod ?n < ?n then [(k + ?n - 1) mod ?n] else [])"
  proof (rule holders_eq)
    fix i assume "i < ?n"
    from designated_nat(2) [OF assms(1) k(1,2) this] prev_neq [OF k(2) assms(3)]
    show "(''prev'' \<in> set (slides c ! i)) = (i = (k + ?n - 1) mod ?n)" by auto
  qed
  moreover have "0 < ?n" using k(2) by (cases "slides c") simp_all
  ultimately show ?thesis using k(3) by simp
qed

lemma designated_next:
  assumes "designated c" "in_range c" "3 \<le> length (slides c)"
  shows "holders ''next'' (slides c) = [(nat (currentIndex c) + 1) mod length (slides c)]"
proof -
  from assms(2) obtain k where k: "currentIndex c = int k" "k < length (slides c)"
    "nat (currentIndex c) = k" by (rule in_range_nat)
  let ?n = "length (slides c)"
  have n2: "2 \<le> ?n" using assms(3) by simp
  have "holders ''next'' (slides c) = (if (k + 1) mod ?n < ?n then [(k + 1) mod ?n] else [])"
  proof (rule holders_eq)
    fix i assume "i < ?n"
    from designated_nat(3) [OF assms(1) k(1,2) this] next_neq [OF k(2) n2]
      next_neq_prev [OF k(2) assms(3)]
    show "(''next'' \<in> set (slides c ! i)) = (i = (k + 1) mod ?n)" by auto
  qed
  moreover have "0 < ?n" using k(2) by (cases "slides c") simp_all
  ultimately show ?thesis using k(3) by simp
qed

lemma designated_next_small:
  assumes "designated c" "in_range c" "length (slides c) \<le> 2"
  shows "holders ''next'' (slides c) = []"
proof (rule holders_none)
  from assms(2) obtain k where k: "currentIndex c = int k" "k < length (slides c)"
    "nat (currentIndex c) = k" by (rule in_range_nat)
  fix i assume "i < length (slides c)"
  from designated_nat(3) [OF assms(1) k(1,2) this] next_eq_prev [OF k(2) assms(3)]
  show "''next'' \<notin> set (slides c ! i)" by auto
qed

lemma designated_prev_single:
  assumes "designated c" "in_range c" "length (slides c) = 1"
  shows "holders ''prev'' (slides c) = []"
proof (rule holders_none)
  from assms(2) obtain k where k: "currentIndex c = int k" "k < length (slides c)"
    "nat (currentIndex c) = k" by (rule in_range_nat)
  fix i assume i: "i < length (slides c)"
  from designated_nat(2) [OF assms(1) k(1,2) this] k(2) i assms(3)
  show "''prev'' \<notin> set (slides c ! i)" by auto
qed

lemma stopAutoPlay_carousel:
  "fst (stopAutoPlay (c, b)) = c\<lparr>autoPlayInterval := None\<rparr> \<or> fst (stopAutoPlay (c, b)) = c"
  by (simp add: stopAutoPlay_def)

lemma stopAutoPlay_fields [simp]:
  "currentIndex (fst (stopAutoPlay st)) = currentIndex (fst st)"
  "slides (fst (stopAutoPlay st)) = slides (fst st)"
  "dots (fst (stopAutoPlay st)) = dots (fst st)"
  by (cases st; simp add: stopAutoPlay_def)+

lemma startAutoPlay_fields [simp]:
  "currentIndex (fst (startAutoPlay st)) = currentIndex (fst st)"
  "slides (fst (startAutoPlay st)) = slides (fst st)"
  "dots (fst (startAutoPlay st)) = dots (fst st)"
  by (cases st; simp add: startAutoPlay_def stopAutoPlay_def setInterval_def Let_def split: prod.splits)+

lemma timer_inv_stop: "timer_inv st \<Longrightarrow> timer_inv (stopAutoPlay st)"
  by (cases st) (auto simp add: timer_inv_def stopAutoPlay_def truthy_def clearInterval_def
      split: option.splits)

lemma stop_clears:
  "timer_inv st \<Longrightarrow> intervals (snd (stopAutoPlay st)) = [] \<and> autoPlayInterval (fst (stopAutoPlay st)) = None"
  by (cases st) (auto simp add: timer_inv_def stopAutoPlay_def truthy_def clearInterval_def
      split: option.splits)

lemma start_single:
  assumes "timer_inv st"
  shows "intervals (snd (startAutoPlay st)) = [Suc (issued (snd st))]"
    and "autoPlayInterval (fst (startAutoPlay st)) = Some (Suc (issued (snd st)))"
    and "issued (snd (startAutoPlay st)) = Suc (issued (snd st))"
  using stop_clears [OF assms]
  by (cases st; cases "stopAutoPlay st";
      simp add: startAutoPlay_def setInterval_def Let_def stopAutoPlay_def clearInterval_def split: if_splits)+

lemma timer_inv_start: "timer_inv st \<Longrightarrow> timer_inv (startAutoPlay st)"
  using start_single [of st]
  by (cases "startAutoPlay st") (simp add: timer_inv_def)

lemma carousel_inv_fstI:
  assumes "carousel_inv n st" "currentIndex (fst st') = currentIndex (fst st)"
    "slides (fst st') = slides (fst st)" "dots (fst st') = dots (fst st)"
  shows "carousel_inv n st'"
  using assms by (cases st; cases st') (simp add: carousel_inv_def designated_def in_range_def)

lemma carousel_inv_goToSlide:
  assumes "carousel_inv n (c, b)" "i < length (dots c)"
  shows "carousel_inv n (goToSlide (int i) c, b)"
  using assms
  by (simp add: carousel_inv_def goToSlide_def designated_updateCarousel in_range_def)

lemma in_range_pos: "in_range c \<Longrightarrow> 0 < int (length (slides c))"
  by (cases "slides c") (auto simp add: in_range_def)

lemma nextSlide_index:
  assumes "in_range c"
  shows "currentIndex (nextSlide c) = (currentIndex c + 1) mod int (length (slides c))"
    and "length (slides (nextSlide c)) = length (slides c)"
    and "length (dots (nextSlide c)) = length (dots c)"
proof -
  from assms in_range_pos [OF assms]
  have "0 \<le> currentIndex c + 1" "0 < int (length (slides c))"
    by (simp_all add: in_range_def)
  then have "(currentIndex c + 1) smod int (length (slides c)) =
      (currentIndex c + 1) mod int (length (slides c))" by (rule smod_nonneg)
  then show "currentIndex (nextSlide c) = (currentIndex c + 1) mod int (length (slides c))"
    by (simp add: nextSlide_def)
qed (simp_all add: nextSlide_def)

lemma in_range_nextSlide:
  assumes "in_range c"
  shows "in_range (nextSlide c)"
proof -
  from assms have "0 < int (length (slides c))" by (rule in_range_pos)
  then have "0 \<le> (currentIndex c + 1) mod int (length (slides c))"
    "(currentIndex c + 1) mod int (length (slides c)) < int (length (slides c))"
    by (rule pos_mod_sign, rule pos_mod_bound)
  then show ?thesis using nextSlide_index [OF assms] by (simp add: in_range_def)
qed

lemma carousel_inv_nextSlide:
  assumes "carousel_inv n (c, b)"
  shows "carousel_inv n (nextSlide c, b)"
proof -
  from assms have r: "in_range c" by (simp add: carousel_inv_def)
  have "designated (nextSlide c)" by (simp add: nextSlide_def designated_updateCarousel)
  with in_range_nextSlide [OF r] nextSlide_index(2,3) [OF r] assms
  show ?thesis by (simp add: carousel_inv_def)
qed

lemma carousel_inv_dispatch:
  assumes "carousel_inv n st"
  shows "carousel_inv n (dispatch p ev st)"
proof (cases st)
  case (Pair c b)
  show ?thesis
  proof (cases "listening p")
    case False
    with assms Pair show ?thesis by (simp add: dispatch_def)
  next
    case True
    show ?thesis
    proof (cases ev)
      case (DotClick i)
      with True Pair assms carousel_inv_goToSlide [of n c b i] show ?thesis
        by (simp add: dispatch_def)
    next
      case (Tick h)
      with True Pair assms carousel_inv_nextSlide [of n c b] show ?thesis
        by (simp add: dispatch_def)
    next
      case MouseEnter
      have "carousel_inv n (stopAutoPlay st)" by (rule carousel_inv_fstI [OF assms]) simp_all
      with MouseEnter True Pair assms show ?thesis by (simp add: dispatch_def)
    next
      case MouseLeave
      have "carousel_inv n (startAutoPlay st)" by (rule carousel_inv_fstI [OF assms]) simp_all
      with MouseLeave True Pair assms show ?thesis by (simp add: dispatch_def)
    qed
  qed
qed

lemma timer_inv_dispatch:
  assumes "timer_inv st"
  shows "timer_inv (dispatch p ev st)"
proof (cases st)
  case (Pair c b)
  with assms timer_inv_stop [of st] timer_inv_start [of st] show ?thesis
    by (cases ev) (simp_all add: dispatch_def timer_inv_def goToSlide_def nextSlide_def)
qed

lemma timer_inv_start_state: "timer_inv start_state"
  by (simp add: timer_inv_def start_state_def constructor_def)

lemma init_eq:
  assumes "carousel_slides p = Some sl" "sl \<noteq> []"
  shows "init p (c, b) =
    (updateCarousel (fst (startAutoPlay (c\<lparr>slides := sl, dots := dot_nodes p\<rparr>, b))),
     snd (startAutoPlay (c\<lparr>slides := sl, dots := dot_nodes p\<rparr>, b)))"
  using assms by (simp add: init_def Let_def split: prod.splits)

lemma timer_inv_updateCarousel: "timer_inv (c, b) \<Longrightarrow> timer_inv (updateCarousel c, b)"
  by (simp add: timer_inv_def)

lemma timer_inv_init: "timer_inv (init p start_state)"
proof (cases "carousel_slides p")
  case None
  then show ?thesis using timer_inv_start_state by (simp add: init_def start_state_def)
next
  case (Some sl)
  show ?thesis
  proof (cases "sl = []")
    case True
    with Some show ?thesis
      by (simp add: init_def start_state_def timer_inv_def constructor_def)
  next
    case False
    let ?st = "(constructor\<lparr>slides := sl, dots := dot_nodes p\<rparr>, \<lparr>issued = 0, intervals = []\<rparr>)"
    have "timer_inv ?st" by (simp add: timer_inv_def constructor_def)
    then have "timer_inv (startAutoPlay ?st)" by (rule timer_inv_start)
    then have "timer_inv (updateCarousel (fst (startAutoPlay ?st)), snd (startAutoPlay ?st))"
      by (cases "startAutoPlay ?st") (simp add: timer_inv_updateCarousel)
    then show ?thesis unfolding start_state_def init_eq [OF Some False] .
  qed
qed

lemma carousel_inv_init:
  assumes "carousel_slides p = Some sl" "sl \<noteq> []" "length (dot_nodes p) \<le> length sl"
  shows "carousel_inv (length sl) (init p start_state)"
  unfolding start_state_def init_eq [OF assms(1,2)]
  using assms(2,3)
  by (simp add: carousel_inv_def designated_updateCarousel in_range_def constructor_def)

lemma foldl_invariant:
  assumes "P s" "\<And>s x. P s \<Longrightarrow> P (f s x)"
  shows "P (foldl f s xs)"
  using assms(1) by (induction xs arbitrary: s) (simp_all add: assms(2))

lemma run_eq: "run p evs = foldl (\<lambda>st ev. dispatch p ev st) (init p start_state) evs"
  by (simp add: run_def start_state_def)

lemma timer_inv_run: "timer_inv (run p evs)"
  unfolding run_eq by (rule foldl_invariant) (simp_all add: timer_inv_init timer_inv_dispatch)

lemma carousel_inv_run:
  assumes "carousel_slides p = Some sl" "sl \<noteq> []" "length (dot_nodes p) \<le> length sl"
  shows "carousel_inv (length sl) (run p evs)"
  unfolding run_eq
  by (rule foldl_invariant) (simp_all add: carousel_inv_init [OF assms] carousel_inv_dispatch)

lemmas carousel_defs = run_def init_def constructor_def startAutoPlay_def stopAutoPlay_def
  truthy_def setInterval_def clearInterval_def dispatch_def listening_def goToSlide_def
  nextSlide_def updateCarousel_def forEach_def update_slide_def update_dot_def
  classList_add_def classList_remove_def classList_toggle_def Let_def signed_modulo_int_def
  holders_def

text \<open>
  Claim C1, as the code has it. On a page with at least one slide and no more indicators
  than slides, after any sequence of indicator clicks, timer ticks and hover events (each
  transition ends in \<^verbatim>\<open>updateCarousel\<close>): exactly one slide carries \<^verbatim>\<open>active\<close>, the one
  at the current index. With three or more slides exactly one slide carries \<^verbatim>\<open>prev\<close> and
  exactly one carries \<^verbatim>\<open>next\<close>, at the cyclic neighbours of the index, both different
  from the active slide. With two slides the other slide carries \<^verbatim>\<open>prev\<close> and no slide
  carries \<^verbatim>\<open>next\<close>; with one slide no slide carries \<^verbatim>\<open>prev\<close> or \<^verbatim>\<open>next\<close>: the
  \<^verbatim>\<open>else if\<close> chain gives each slide at most one of the three classes.
\<close>

theorem carousel_designations:
  assumes "carousel_slides p = Some sl" "sl \<noteq> []" "length (dot_nodes p) \<le> length sl"
  shows "length (slides (fst (run p evs))) = length sl \<and>
     0 \<le> currentIndex (fst (run p evs)) \<and> currentIndex (fst (run p evs)) < int (length sl) \<and>
     holders ''active'' (slides (fst (run p evs))) = [nat (currentIndex (fst (run p evs)))] \<and>
     (3 \<le> length sl \<longrightarrow>
        holders ''prev'' (slides (fst (run p evs))) =
          [(nat (currentIndex (fst (run p evs))) + length sl - 1) mod length sl] \<and>
        holders ''next'' (slides (fst (run p evs))) =
          [(nat (currentIndex (fst (run p evs))) + 1) mod length sl] \<and>
        (nat (currentIndex (fst (run p evs))) + length sl - 1) mod length sl
          \<noteq> nat (currentIndex (fst (run p evs))) \<and>
        (nat (currentIndex (fst (run p evs))) + 1) mod length sl
          \<noteq> nat (currentIndex (fst (run p evs)))) \<and>
     (length sl = 2 \<longrightarrow>
        holders ''prev'' (slides (fst (run p evs))) = [1 - nat (currentIndex (fst (run p evs)))] \<and>
        holders ''next'' (slides (fst (run p evs))) = []) \<and>
     (length sl = 1 \<longrightarrow>
        holders ''prev'' (slides (fst (run p evs))) = [] \<and>
        holders ''next'' (slides (fst (run p evs))) = [])"
proof -
  obtain c b where st: "run p evs = (c, b)" by (cases "run p evs")
  from carousel_inv_run [OF assms, of evs] st
  have d: "designated c" and r: "in_range c" and n: "length (slides c) = length sl"
    by (simp_all add: carousel_inv_def)
  from r obtain k where k: "currentIndex c = int k" "k < length (slides c)"
    "nat (currentIndex c) = k" by (rule in_range_nat)
  have a: "holders ''active'' (slides c) = [nat (currentIndex c)]"
    using d r by (rule designated_active)
  have three: "holders ''prev'' (slides c) = [(k + length sl - 1) mod length sl] \<and>
      holders ''next'' (slides c) = [(k + 1) mod length sl] \<and>
      (k + length sl - 1) mod length sl \<noteq> k \<and> (k + 1) mod length sl \<noteq> k"
    if "3 \<le> length sl"
  proof -
    from that n have n3: "3 \<le> length (slides c)" and n2: "2 \<le> length (slides c)" by simp_all
    from designated_prev [OF d r n2] designated_next [OF d r n3]
      prev_neq [OF k(2) n2] next_neq [OF k(2) n2]
    show ?thesis unfolding k(3) n by simp
  qed
  have two: "holders ''prev'' (slides c) = [1 - k] \<and> holders ''next'' (slides c) = []"
    if "length sl = 2"
  proof -
    from that n have n2: "2 \<le> length (slides c)" and le: "length (slides c) \<le> 2" by simp_all
    have "(k + length sl - 1) mod length sl = 1 - k"
      using k(2) n that prev_mod [of k "length sl"] by auto
    with designated_prev [OF d r n2] designated_next_small [OF d r le]
    show ?thesis unfolding k(3) n by simp
  qed
  have one: "holders ''prev'' (slides c) = [] \<and> holders ''next'' (slides c) = []"
    if "length sl = 1"
  proof -
    from that n have n1: "length (slides c) = 1" and le: "length (slides c) \<le> 2" by simp_all
    from designated_prev_single [OF d r n1] designated_next_small [OF d r le]
    show ?thesis by simp
  qed
  from r n have "0 \<le> currentIndex c" "currentIndex c < int (length sl)"
    by (simp_all add: in_range_def)
  with a n three two one show ?thesis unfolding st fst_conv k(3) by simp
qed

text \<open>
  Three slides, a click on the last indicator, then one tick of the timer; two slides and a
  click on the second indicator; one slide, a tick and a click.
\<close>

theorem carousel_designations_witness:
  "holders ''active'' (slides (fst (run page3 clicks3))) = [0] \<and>
   holders ''prev'' (slides (fst (run page3 clicks3))) = [2] \<and>
   holders ''next'' (slides (fst (run page3 clicks3))) = [1] \<and>
   holders ''active'' (slides (fst (run page2 clicks2))) = [1] \<and>
   holders ''prev'' (slides (fst (run page2 clicks2))) = [0] \<and>
   holders ''next'' (slides (fst (run page2 clicks2))) = [] \<and>
   holders ''active'' (slides (fst (run page1 clicks1))) = [0] \<and>
   holders ''prev'' (slides (fst (run page1 clicks1))) = [] \<and>
   holders ''next'' (slides (fst (run page1 clicks1))) = []"
proof -
  let ?s3 = "[[''testimonial-slide'', ''active''], [''testimonial-slide''], [''testimonial-slide'']]"
  let ?s2 = "[[''testimonial-slide'', ''active''], [''testimonial-slide'']]"
  let ?s1 = "[[''testimonial-slide'']]"
  have h3: "carousel_slides page3 = Some ?s3" "?s3 \<noteq> []" "length (dot_nodes page3) \<le> length ?s3"
    by (simp_all add: page3_def)
  have h2: "carousel_slides page2 = Some ?s2" "?s2 \<noteq> []" "length (dot_nodes page2) \<le> length ?s2"
    by (simp_all add: page2_def)
  have h1: "carousel_slides page1 = Some ?s1" "?s1 \<noteq> []" "length (dot_nodes page1) \<le> length ?s1"
    by (simp_all add: page1_def)
  have idx: "currentIndex (fst (run page3 clicks3)) = 0"
    "currentIndex (fst (run page2 clicks2)) = 1"
    "currentIndex (fst (run page1 clicks1)) = 0"
    by (simp_all add: page3_def page2_def page1_def clicks3_def clicks2_def clicks1_def
        carousel_defs)
  from carousel_designations [OF h3, of clicks3] carousel_designations [OF h2, of clicks2]
    carousel_designations [OF h1, of clicks1]
  show ?thesis by (simp add: idx)
qed

text \<open>
  Claim C1 as stated fails with two slides: after a click on the second indicator the
  first slide, which is not active, carries \<^verbatim>\<open>prev\<close> but not \<^verbatim>\<open>next\<close>.
\<close>

theorem two_slides_counterexample:
  "slides (fst (run page2 [DotClick 1])) =
     [[''testimonial-slide'', ''prev''], [''testimonial-slide'', ''active'']] \<and>
   ''active'' \<notin> set (slides (fst (run page2 [DotClick 1])) ! 0) \<and>
   ''next'' \<notin> set (slides (fst (run page2 [DotClick 1])) ! 0)"
  by (simp add: page2_def carousel_defs)




lemma nextSlide_funpow:
  assumes "in_range c"
  shows "in_range ((nextSlide ^^ j) c) \<and>
     length (slides ((nextSlide ^^ j) c)) = length (slides c) \<and>
     currentIndex ((nextSlide ^^ j) c) = (currentIndex c + int j) mod int (length (slides c))"
proof (induction j)
  case 0
  with assms show ?case by (simp add: in_range_def)
next
  case (Suc j)
  let ?d = "(nextSlide ^^ j) c"
  from Suc have r: "in_range ?d" and n: "length (slides ?d) = length (slides c)"
    and i: "currentIndex ?d = (currentIndex c + int j) mod int (length (slides c))"
    by simp_all
  have "currentIndex (nextSlide ?d) = (currentIndex ?d + 1) mod int (length (slides c))"
    using nextSlide_index(1) [OF r] n by simp
  also have "\<dots> = (currentIndex c + int (Suc j)) mod int (length (slides c))"
    unfolding i by (simp add: mod_add_left_eq mod_add_right_eq ac_simps)
  finally show ?case
    using in_range_nextSlide [OF r] nextSlide_index(2) [OF r] n by simp
qed

text \<open>
  Claim C3: from any index in \<open>[0, slideCount)\<close>, \<^verbatim>\<open>nextSlide\<close> applied \<open>slideCount\<close>
  times brings the index back to where it started.
\<close>

theorem advance_cycle:
  assumes "0 \<le> currentIndex c" "currentIndex c < int (length (slides c))"
  shows "currentIndex ((nextSlide ^^ length (slides c)) c) = currentIndex c"
proof -
  from assms have "in_range c" by (simp add: in_range_def)
  from nextSlide_funpow [OF this, of "length (slides c)"] assms show ?thesis by simp
qed

theorem advance_cycle_witness:
  "0 \<le> currentIndex carousel3 \<and> currentIndex carousel3 < int (length (slides carousel3)) \<and>
   currentIndex ((nextSlide ^^ length (slides carousel3)) carousel3) = currentIndex carousel3"
proof -
  have h: "0 \<le> currentIndex carousel3" "currentIndex carousel3 < int (length (slides carousel3))"
    by (simp_all add: carousel3_def)
  from h advance_cycle [OF h] show ?thesis by blast
qed

text \<open>
  Claim C4: after any sequence of events (the controller starts auto-play in \<^verbatim>\<open>init\<close>
  and on \<^verbatim>\<open>mouseleave\<close>, and stops it on \<^verbatim>\<open>mouseenter\<close>) at most one repeating timer
  runs; \<^verbatim>\<open>startAutoPlay\<close> in any such state leaves exactly one timer running, and none of
  the timers that ran before it is still running; \<^verbatim>\<open>stopAutoPlay\<close> leaves none.
\<close>

theorem single_timer:
  "length (intervals (snd (run p evs))) \<le> 1 \<and>
   length (intervals (snd (startAutoPlay (run p evs)))) = 1 \<and>
   set (intervals (snd (startAutoPlay (run p evs)))) \<inter> set (intervals (snd (run p evs))) = {} \<and>
   intervals (snd (stopAutoPlay (run p evs))) = []"
proof -
  obtain c b where st: "run p evs = (c, b)" by (cases "run p evs")
  have inv: "timer_inv (run p evs)" by (rule timer_inv_run)
  have 1: "length (intervals (snd (run p evs))) \<le> 1"
    and 2: "\<forall>h \<in> set (intervals (snd (run p evs))). h \<le> issued (snd (run p evs))"
    using inv unfolding st by (auto simp add: timer_inv_def split: option.splits)
  from start_single(1) [OF inv] 2 stop_clears [OF inv] 1 show ?thesis by auto
qed

theorem single_timer_witness:
  "intervals (snd (run page3 hover)) = [3] \<and>
   length (intervals (snd (startAutoPlay (run page3 hover)))) = 1 \<and>
   3 \<notin> set (intervals (snd (startAutoPlay (run page3 hover))))"
proof -
  have e: "intervals (snd (run page3 hover)) = [3]"
    by (simp add: page3_def hover_def carousel_defs)
  from single_timer [of page3 hover] show ?thesis by (simp add: e)
qed

section \<open>The animation engine: proofs\<close>

lemma modify_fields [simp]:
  "length (nodes (modify e f w)) = length (nodes w)"
  "timeouts (modify e f w) = timeouts w"
  "frames (modify e f w) = frames w"
  "now (modify e f w) = now w"
  "body (modify e f w) = body w"
  "console (modify e f w) = console w"
  by (simp_all add: modify_def)

lemma lookup_modify:
  "lookup (modify e f w) x = (if x = e then map_option f (lookup w e) else lookup w x)"
  by (simp add: lookup_def modify_def)

lemma lookup_None_iff: "lookup w e = None \<longleftrightarrow> \<not> e < length (nodes w)"
  by (simp add: lookup_def)

lemma parent_of_style_set [simp]: "parent_of (style_set e prop v w) x = parent_of w x"
  by (simp add: parent_of_def style_set_def lookup_modify split: option.splits)

lemma style_get_style_set:
  "style_get (style_set e prop v w) x q =
     (if x = e \<and> q = prop \<and> e < length (nodes w) then v else style_get w x q)"
proof (cases "lookup w e")
  case None
  then have "\<not> e < length (nodes w)" by (simp add: lookup_None_iff)
  with None show ?thesis
    by (simp add: style_get_def style_set_def lookup_modify)
next
  case (Some n)
  then have "e < length (nodes w)" by (simp add: lookup_def split: if_splits)
  with Some show ?thesis
    by (simp add: style_get_def style_set_def lookup_modify update_conv')
qed

lemma style_set_fields [simp]:
  "length (nodes (style_set e prop v w)) = length (nodes w)"
  "timeouts (style_set e prop v w) = timeouts w"
  "frames (style_set e prop v w) = frames w"
  "now (style_set e prop v w) = now w"
  "body (style_set e prop v w) = body w"
  "console (style_set e prop v w) = console w"
  by (simp_all add: style_set_def)

lemma detach_fields [simp]:
  "length (nodes (detach x w)) = length (nodes w)"
  "timeouts (detach x w) = timeouts w"
  "frames (detach x w) = frames w"
  "now (detach x w) = now w"
  "body (detach x w) = body w"
  "console (detach x w) = console w"
  by (simp_all add: detach_def removeChild_def split: option.splits)

lemma parent_of_detach:
  "parent_of (detach x w) y = (if y = x then None else parent_of w y)"
  by (auto simp add: detach_def removeChild_def parent_of_def lookup_modify split: option.splits)

lemma style_get_detach [simp]: "style_get (detach x w) y q = style_get w y q"
  by (auto simp add: detach_def removeChild_def style_get_def lookup_modify split: option.splits)

lemma appendChild_fields [simp]:
  "length (nodes (appendChild p c w)) = length (nodes w)"
  "timeouts (appendChild p c w) = timeouts w"
  "frames (appendChild p c w) = frames w"
  "now (appendChild p c w) = now w"
  "body (appendChild p c w) = body w"
  "console (appendChild p c w) = console w"
  by (simp_all add: appendChild_def)

lemma parent_of_appendChild:
  "parent_of (appendChild p c w) y = (if y = c \<and> c < length (nodes w) then Some p else parent_of w y)"
proof (cases "lookup w c")
  case None
  then have "\<not> c < length (nodes w)" by (simp add: lookup_None_iff)
  with None show ?thesis
    by (simp add: appendChild_def parent_of_def lookup_modify)
next
  case (Some n)
  then have "c < length (nodes w)" by (simp add: lookup_def split: if_splits)
  with Some show ?thesis
    by (simp add: appendChild_def parent_of_def lookup_modify)
qed

lemma style_get_appendChild [simp]: "style_get (appendChild p c w) y q = style_get w y q"
  by (auto simp add: appendChild_def style_get_def lookup_modify split: option.splits)

lemma setTimeout_fields [simp]:
  "nodes (setTimeout task d w) = nodes w"
  "timeouts (setTimeout task d w) = timeouts w @ [(now w + d, task)]"
  "frames (setTimeout task d w) = frames w"
  "now (setTimeout task d w) = now w"
  "body (setTimeout task d w) = body w"
  "console (setTimeout task d w) = console w"
  by (simp_all add: setTimeout_def)

lemma setTimeout_reads [simp]:
  "parent_of (setTimeout task d w) x = parent_of w x"
  "style_get (setTimeout task d w) x q = style_get w x q"
  "lookup (setTimeout task d w) x = lookup w x"
  by (simp_all add: parent_of_def style_get_def lookup_def)

lemma remove_all_fields [simp]:
  "length (nodes (foldl (\<lambda>w p. detach p w) w ps)) = length (nodes w)"
  "timeouts (foldl (\<lambda>w p. detach p w) w ps) = timeouts w"
  "frames (foldl (\<lambda>w p. detach p w) w ps) = frames w"
  "now (foldl (\<lambda>w p. detach p w) w ps) = now w"
  "body (foldl (\<lambda>w p. detach p w) w ps) = body w"
  "console (foldl (\<lambda>w p. detach p w) w ps) = console w"
  by (induction ps arbitrary: w; simp)+

lemma parent_of_remove_all:
  "parent_of (foldl (\<lambda>w p. detach p w) w ps) y = (if y \<in> set ps then None else parent_of w y)"
  by (induction ps arbitrary: w) (auto simp add: parent_of_detach)

lemma style_get_remove_all [simp]:
  "style_get (foldl (\<lambda>w p. detach p w) w ps) y q = style_get w y q"
  by (induction ps arbitrary: w) simp_all

lemma run_timeout_fields [simp]:
  "length (nodes (run_timeout task w)) = length (nodes w)"
  "timeouts (run_timeout task w) = timeouts w"
  "frames (run_timeout task w) = frames w"
  "now (run_timeout task w) = now w"
  "body (run_timeout task w) = body w"
  "console (run_timeout task w) = console w"
  by (cases task; simp)+

lemma parent_of_run_timeout:
  "parent_of (run_timeout task w) y = None \<or> parent_of (run_timeout task w) y = parent_of w y"
  by (cases task) (simp_all add: parent_of_remove_all parent_of_detach)

lemma overflow_run_timeout [simp]:
  "style_get (run_timeout task w) y ''overflow'' = style_get w y ''overflow''"
  by (cases task) (simp_all add: style_get_style_set)

lemma run_frame_fields [simp]:
  "length (nodes (run_frame task r w)) = length (nodes w)"
  "timeouts (run_frame task r w) = timeouts w"
  "frames (run_frame task r w) = frames w"
  "now (run_frame task r w) = now w"
  "body (run_frame task r w) = body w"
  "console (run_frame task r w) = console w"
  by (cases task; simp add: Let_def)+

lemma parent_of_run_frame [simp]: "parent_of (run_frame task r w) y = parent_of w y"
  by (cases task) (simp add: Let_def)

lemma overflow_run_frame [simp]:
  "style_get (run_frame task r w) y ''overflow'' = style_get w y ''overflow''"
  by (cases task) (simp add: Let_def style_get_style_set)

lemma getBoundingClientRect_Inr:
  assumes "getBoundingClientRect e w = Inr r"
  shows "e < length (nodes w)" and "geometry (nodes w ! e) = Some r"
  using assms
  by (simp_all add: getBoundingClientRect_def lookup_def split: if_splits option.splits)

lemma getBoundingRect_Inr:
  "getBoundingClientRect e w = Inr r \<Longrightarrow> getBoundingRect e w = (Some r, w)"
  by (simp add: getBoundingRect_def)

lemma getBoundingRect_Inl:
  "getBoundingClientRect e w = Inl err \<Longrightarrow>
   getBoundingRect e w =
     (None, w\<lparr>console := console w @ [Warn ''Error getting bounding rect:'' err]\<rparr>)"
  by (simp add: getBoundingRect_def)

lemma spawn_step:
  "spawn cx cy (ps, w) i =
     (ps @ [length (nodes w)],
      w\<lparr>nodes := nodes w @ [particle_node cx cy (body w)],
        frames := frames w @ [AnimateParticle (length (nodes w)) i]\<rparr>)"
  by (simp add: spawn_def createParticle_def createElement_def set_entry_def setAttribute_def
      requestAnimationFrame_def appendChild_def modify_def particle_node_def Let_def)

lemma spawn_loop:
  "foldl (spawn cx cy) (ps, w) [0..<k] =
     (ps @ [length (nodes w)..<length (nodes w) + k],
      w\<lparr>nodes := nodes w @ replicate k (particle_node cx cy (body w)),
        frames := frames w @ map (\<lambda>i. AnimateParticle (length (nodes w) + i) i) [0..<k]\<rparr>)"
proof (induction k)
  case 0
  show ?case by simp
next
  case (Suc k)
  show ?case
    by (simp add: Suc spawn_step replicate_append_same)
qed

lemma createParticleAnimation_eq:
  assumes "getBoundingClientRect e w = Inr r"
  shows "createParticleAnimation e w =
     w\<lparr>nodes := nodes w @ replicate PARTICLES_COUNT
          (particle_node (rect_left r + rect_width r / 2) (rect_top r + rect_height r / 2) (body w)),
       frames := frames w @
          map (\<lambda>i. AnimateParticle (length (nodes w) + i) i) [0..<PARTICLES_COUNT],
       timeouts := timeouts w @
          [(now w + PARTICLE_LIFE,
            RemoveParticles [length (nodes w)..<length (nodes w) + PARTICLES_COUNT])]\<rparr>"
  by (simp add: createParticleAnimation_def getBoundingRect_Inr [OF assms] Let_def spawn_loop
      setTimeout_def)

lemma createParticleAnimation_fail:
  assumes "getBoundingClientRect e w = Inl err"
  shows "createParticleAnimation e w =
     w\<lparr>console := console w @ [Warn ''Error getting bounding rect:'' err]\<rparr>"
  by (simp add: createParticleAnimation_def getBoundingRect_Inl [OF assms])

lemma createRippleEffect_fail:
  assumes "getBoundingClientRect e w = Inl err"
  shows "createRippleEffect e ev w =
     w\<lparr>console := console w @ [Warn ''Error getting bounding rect:'' err]\<rparr>"
  by (simp add: createRippleEffect_def getBoundingRect_Inl [OF assms])

lemma reads_cong:
  assumes "lookup w' x = lookup w x"
  shows "parent_of w' x = parent_of w x" and "style_get w' x q = style_get w x q"
  using assms by (simp_all add: parent_of_def style_get_def)

lemma lookup_extend:
  assumes "nodes w' = nodes w @ xs" "x < length (nodes w)"
  shows "lookup w' x = lookup w x"
  using assms by (simp add: lookup_def nth_append)

lemma lookup_same_nodes: "nodes w' = nodes w \<Longrightarrow> lookup w' x = lookup w x"
  by (simp add: lookup_def)

lemma createRippleEffect_eq:
  assumes "getBoundingClientRect b w = Inr r"
  shows "createRippleEffect b ev w =
       setTimeout (RemoveRipple (length (nodes w)) b (style_get w b ''position'')) RIPPLE_LIFE
         (appendChild b (length (nodes w))
           (style_set b ''overflow'' [Ident ''hidden'']
             (style_set b ''position'' [Ident ''relative'']
               (w\<lparr>nodes := nodes w @
                  [ripple_node (max (rect_width r) (rect_height r))
                     (clientX ev - rect_left r - max (rect_width r) (rect_height r) / 2)
                     (clientY ev - rect_top r - max (rect_width r) (rect_height r) / 2)]\<rparr>))))"
proof -
  have b: "b < length (nodes w)" by (rule getBoundingClientRect_Inr(1) [OF assms])
  have "style_get (w\<lparr>nodes := nodes w @ [nd]\<rparr>) b ''position'' = style_get w b ''position''" for nd
    by (rule reads_cong(2), rule lookup_extend [OF _ b]) simp
  then show ?thesis
    by (simp add: createRippleEffect_def getBoundingRect_Inr [OF assms] Let_def createElement_def
        set_entry_def setAttribute_def ripple_node_def)
qed

lemma ripple_reads:
  assumes "getBoundingClientRect b w = Inr r"
  shows "length (nodes (createRippleEffect b ev w)) = Suc (length (nodes w))"
    and "style_get (createRippleEffect b ev w) b ''position'' = [Ident ''relative'']"
    and "style_get (createRippleEffect b ev w) b ''overflow'' = [Ident ''hidden'']"
    and "parent_of (createRippleEffect b ev w) (length (nodes w)) = Some b"
    and "timeouts (createRippleEffect b ev w) =
           timeouts w @ [(now w + RIPPLE_LIFE,
              RemoveRipple (length (nodes w)) b (style_get w b ''position''))]"
    and "now (createRippleEffect b ev w) = now w"
    and "frames (createRippleEffect b ev w) = frames w"
    and "body (createRippleEffect b ev w) = body w"
    and "console (createRippleEffect b ev w) = console w"
  unfolding createRippleEffect_eq [OF assms]
  using getBoundingClientRect_Inr(1) [OF assms]
  by (simp_all add: style_get_style_set parent_of_appendChild)

lemma ripple_old_nodes:
  assumes "getBoundingClientRect b w = Inr r" "x < length (nodes w)"
  shows "parent_of (createRippleEffect b ev w) x = parent_of w x"
    and "q \<noteq> ''position'' \<Longrightarrow> q \<noteq> ''overflow'' \<Longrightarrow>
         style_get (createRippleEffect b ev w) x q = style_get w x q"
    and "x \<noteq> b \<Longrightarrow> style_get (createRippleEffect b ev w) x q = style_get w x q"
    and "style_get w x ''overflow'' = [Ident ''hidden''] \<Longrightarrow>
         style_get (createRippleEffect b ev w) x ''overflow'' = [Ident ''hidden'']"
proof -
  note e = createRippleEffect_eq [OF assms(1), of ev]
  have l: "lookup (w\<lparr>nodes := nodes w @ [nd]\<rparr>) x = lookup w x" for nd
    by (rule lookup_extend [OF _ assms(2)]) simp
  note rd = reads_cong [OF l]
  show "parent_of (createRippleEffect b ev w) x = parent_of w x"
    unfolding e using assms(2) by (simp add: parent_of_appendChild rd)
  show "q \<noteq> ''position'' \<Longrightarrow> q \<noteq> ''overflow'' \<Longrightarrow>
         style_get (createRippleEffect b ev w) x q = style_get w x q"
    unfolding e by (simp add: style_get_style_set rd)
  show "x \<noteq> b \<Longrightarrow> style_get (createRippleEffect b ev w) x q = style_get w x q"
    unfolding e by (simp add: style_get_style_set rd)
  show "style_get w x ''overflow'' = [Ident ''hidden''] \<Longrightarrow>
         style_get (createRippleEffect b ev w) x ''overflow'' = [Ident ''hidden'']"
    unfolding e by (simp add: style_get_style_set rd)
qed

lemma particles_old_nodes:
  assumes "x < length (nodes w)"
  shows "lookup (createParticleAnimation e w) x = lookup w x"
proof (cases "getBoundingClientRect e w")
  case (Inl err)
  show ?thesis unfolding createParticleAnimation_fail [OF Inl] by (rule lookup_same_nodes) simp
next
  case (Inr r)
  show ?thesis unfolding createParticleAnimation_eq [OF Inr]
    by (rule lookup_extend [OF _ assms]) simp
qed

lemma particles_fields:
  "length (nodes w) \<le> length (nodes (createParticleAnimation e w))"
  "now (createParticleAnimation e w) = now w"
  "body (createParticleAnimation e w) = body w"
  "\<exists>ts. timeouts (createParticleAnimation e w) = timeouts w @ ts"
  by (cases "getBoundingClientRect e w";
      simp add: createParticleAnimation_fail createParticleAnimation_eq)+

lemma ripple_fields:
  "length (nodes w) \<le> length (nodes (createRippleEffect b ev w))"
  "now (createRippleEffect b ev w) = now w"
  "body (createRippleEffect b ev w) = body w"
  "\<exists>ts. timeouts (createRippleEffect b ev w) = timeouts w @ ts"
  by (cases "getBoundingClientRect b w";
      simp add: createRippleEffect_fail ripple_reads)+

lemma ripple_old_parent:
  assumes "x < length (nodes w)"
  shows "parent_of (createRippleEffect b ev w) x = parent_of w x"
proof (cases "getBoundingClientRect b w")
  case (Inl err)
  show ?thesis unfolding createRippleEffect_fail [OF Inl]
    by (rule reads_cong, rule lookup_same_nodes) simp
next
  case (Inr r)
  then show ?thesis using assms by (rule ripple_old_nodes(1))
qed

lemma ripple_keeps_hidden:
  assumes "x < length (nodes w)" "style_get w x ''overflow'' = [Ident ''hidden'']"
  shows "style_get (createRippleEffect b ev w) x ''overflow'' = [Ident ''hidden'']"
proof (cases "getBoundingClientRect b w")
  case (Inl err)
  have "style_get (createRippleEffect b ev w) x ''overflow'' = style_get w x ''overflow''"
    unfolding createRippleEffect_fail [OF Inl]
    by (rule reads_cong, rule lookup_same_nodes) simp
  with assms(2) show ?thesis by simp
next
  case (Inr r)
  then show ?thesis using assms by (rule ripple_old_nodes(4))
qed

lemma fire_fields [simp]:
  "length (nodes (fire w t)) = length (nodes w)"
  "timeouts (fire w t) = timeouts w"
  "frames (fire w t) = frames w"
  "now (fire w t) = now w"
  "body (fire w t) = body w"
  "console (fire w t) = console w"
  "style_get (fire w t) x ''overflow'' = style_get w x ''overflow''"
  by (simp_all add: fire_def)

lemma fire_all_fields [simp]:
  "length (nodes (foldl fire w ts)) = length (nodes w)"
  "timeouts (foldl fire w ts) = timeouts w"
  "frames (foldl fire w ts) = frames w"
  "now (foldl fire w ts) = now w"
  "body (foldl fire w ts) = body w"
  "console (foldl fire w ts) = console w"
  "style_get (foldl fire w ts) x ''overflow'' = style_get w x ''overflow''"
  by (induction ts arbitrary: w; simp)+

lemma fire_detached: "parent_of w x = None \<Longrightarrow> parent_of (fire w t) x = None"
  using parent_of_run_timeout [of "snd t" w x] by (auto simp add: fire_def)

lemma fire_all_detached: "parent_of w x = None \<Longrightarrow> parent_of (foldl fire w ts) x = None"
  by (induction ts arbitrary: w) (simp_all add: fire_detached)

lemma fire_all_detaches:
  assumes "\<And>w. parent_of (run_timeout task w) x = None" "(T, task) \<in> set ts"
  shows "parent_of (foldl fire w ts) x = None"
  using assms(2)
proof (induction ts arbitrary: w)
  case Nil
  then show ?case by simp
next
  case (Cons t ts)
  show ?case
  proof (cases "t = (T, task)")
    case True
    then have "parent_of (fire w t) x = None" by (simp add: fire_def assms(1))
    then show ?thesis by (simp add: fire_all_detached)
  next
    case False
    with Cons.prems have "(T, task) \<in> set ts" by simp
    then show ?thesis by (simp add: Cons.IH)
  qed
qed

lemma elapse_fields [simp]:
  "length (nodes (elapse d w)) = length (nodes w)"
  "timeouts (elapse d w) = filter (\<lambda>(time, task). \<not> time \<le> now w + d) (timeouts w)"
  "frames (elapse d w) = frames w"
  "now (elapse d w) = now w + d"
  "body (elapse d w) = body w"
  "console (elapse d w) = console w"
  by (simp_all add: elapse_def Let_def)

lemma parent_of_now_update [simp]: "parent_of (w\<lparr>now := t\<rparr>) x = parent_of w x"
  by (simp add: parent_of_def lookup_def)

lemma style_get_now_update [simp]: "style_get (w\<lparr>now := t\<rparr>) x q = style_get w x q"
  by (simp add: style_get_def lookup_def)

lemma parent_of_timeouts_update [simp]: "parent_of (w\<lparr>timeouts := t\<rparr>) x = parent_of w x"
  by (simp add: parent_of_def lookup_def)

lemma style_get_timeouts_update [simp]: "style_get (w\<lparr>timeouts := t\<rparr>) x q = style_get w x q"
  by (simp add: style_get_def lookup_def)

lemma parent_of_frames_update [simp]: "parent_of (w\<lparr>frames := t\<rparr>) x = parent_of w x"
  by (simp add: parent_of_def lookup_def)

lemma style_get_frames_update [simp]: "style_get (w\<lparr>frames := t\<rparr>) x q = style_get w x q"
  by (simp add: style_get_def lookup_def)

lemma elapse_detached: "parent_of w x = None \<Longrightarrow> parent_of (elapse d w) x = None"
  by (simp add: elapse_def Let_def fire_all_detached)

lemma elapse_detaches:
  assumes "\<And>w. parent_of (run_timeout task w) x = None"
    and "(T, task) \<in> set (timeouts w)" "T \<le> now w + d"
  shows "parent_of (elapse d w) x = None"
proof -
  have "(T, task) \<in> set (sort_key fst (filter (\<lambda>(time, task). time \<le> now w + d) (timeouts w)))"
    using assms(2,3) by simp
  from fire_all_detaches [OF assms(1) this] show ?thesis
    by (simp add: elapse_def Let_def)
qed

lemma elapse_overflow [simp]:
  "style_get (elapse d w) x ''overflow'' = style_get w x ''overflow''"
  by (simp add: elapse_def Let_def)

lemma lookup_frames_update [simp]: "lookup (w\<lparr>frames := t\<rparr>) x = lookup w x"
  by (simp add: lookup_def)

lemma draw_fields [simp]:
  "length (nodes (draw random w t)) = length (nodes w)"
  "timeouts (draw random w t) = timeouts w"
  "now (draw random w t) = now w"
  "body (draw random w t) = body w"
  "parent_of (draw random w t) x = parent_of w x"
  "style_get (draw random w t) x ''overflow'' = style_get w x ''overflow''"
  by (simp_all add: draw_def)

lemma paint_loop_fields [simp]:
  "length (nodes (foldl (draw random) w ts)) = length (nodes w)"
  "timeouts (foldl (draw random) w ts) = timeouts w"
  "now (foldl (draw random) w ts) = now w"
  "body (foldl (draw random) w ts) = body w"
  "parent_of (foldl (draw random) w ts) x = parent_of w x"
  "style_get (foldl (draw random) w ts) x ''overflow'' = style_get w x ''overflow''"
  by (induction ts arbitrary: w; simp)+

lemma paint_fields [simp]:
  "length (nodes (paint random w)) = length (nodes w)"
  "timeouts (paint random w) = timeouts w"
  "now (paint random w) = now w"
  "body (paint random w) = body w"
  "parent_of (paint random w) x = parent_of w x"
  "style_get (paint random w) x ''overflow'' = style_get w x ''overflow''"
  by (simp_all add: paint_def)

lemma handleCardClick_fields:
  "length (nodes w) \<le> length (nodes (handleCardClick e w))"
  "now (handleCardClick e w) = now w"
  "set (timeouts w) \<subseteq> set (timeouts (handleCardClick e w))"
  using particles_fields [where w = w and e = e]
  by (auto simp add: handleCardClick_def Let_def)

lemma handleCardClick_old:
  assumes "x < length (nodes w)"
  shows "parent_of (handleCardClick e w) x = parent_of w x"
    and "style_get (handleCardClick e w) x ''overflow'' = style_get w x ''overflow''"
  using reads_cong [OF particles_old_nodes [OF assms, of e]]
  by (simp_all add: handleCardClick_def Let_def style_get_style_set)

lemma button_click_fields:
  "length (nodes w) \<le> length (nodes (button_click b ev w))"
  "now (button_click b ev w) = now w"
  "set (timeouts w) \<subseteq> set (timeouts (button_click b ev w))"
  using ripple_fields [where w = w and b = b and ev = ev]
  by (auto simp add: button_click_def addButtonPressEffect_def)

lemma button_click_old:
  assumes "x < length (nodes w)"
  shows "parent_of (button_click b ev w) x = parent_of w x"
    and "style_get w x ''overflow'' = [Ident ''hidden''] \<Longrightarrow>
         style_get (button_click b ev w) x ''overflow'' = [Ident ''hidden'']"
  using ripple_old_parent [OF assms, of b ev] ripple_keeps_hidden [OF assms, of b ev]
  by (simp_all add: button_click_def addButtonPressEffect_def style_get_style_set)

lemma act_length: "length (nodes w) \<le> length (nodes (act w a))"
  using particles_fields(1) [of w] ripple_fields(1) [of w]
  by (cases a) (simp_all add: handleCardClick_fields button_click_fields)

lemma act_detached:
  assumes "x < length (nodes w)" "parent_of w x = None"
  shows "parent_of (act w a) x = None"
  using assms reads_cong(1) [OF particles_old_nodes [OF assms(1)]]
  by (cases a)
    (simp_all add: handleCardClick_old button_click_old ripple_old_parent elapse_detached)

lemma act_hidden:
  assumes "x < length (nodes w)" "style_get w x ''overflow'' = [Ident ''hidden'']"
  shows "style_get (act w a) x ''overflow'' = [Ident ''hidden'']"
  using assms reads_cong(2) [OF particles_old_nodes [OF assms(1)]]
  by (cases a)
    (simp_all add: handleCardClick_old button_click_old ripple_keeps_hidden)

lemma act_now: "now (act w a) = now w + elapsed [a]"
  by (cases a)
    (simp_all add: elapsed_def handleCardClick_fields button_click_fields
      particles_fields ripple_fields)

lemma act_pending:
  assumes "(T, task) \<in> set (timeouts w)" "now w + elapsed [a] < T"
  shows "(T, task) \<in> set (timeouts (act w a))"
proof (cases a)
  case (CardClick e)
  with assms(1) handleCardClick_fields(3) [where w = w and e = e] show ?thesis by auto
next
  case (ButtonClick b ev)
  with assms(1) button_click_fields(3) [where w = w and b = b and ev = ev] show ?thesis by auto
next
  case (Particles e)
  with assms(1) particles_fields(4) [where w = w and e = e] show ?thesis by auto
next
  case (Ripple b ev)
  with assms(1) ripple_fields(4) [where w = w and b = b and ev = ev] show ?thesis by auto
next
  case (Elapse d)
  with assms show ?thesis by (simp add: elapsed_def)
next
  case (Paint random)
  with assms(1) show ?thesis by simp
qed

lemma act_fires:
  assumes "\<And>w. parent_of (run_timeout task w) x = None"
    and "(T, task) \<in> set (timeouts w)" "T \<le> now w + elapsed [a]" "now w < T"
  shows "parent_of (act w a) x = None"
proof (cases a)
  case (Elapse d)
  with assms(3) have "T \<le> now w + d" by (simp add: elapsed_def)
  from elapse_detaches [OF assms(1,2) this] Elapse show ?thesis by simp
qed (use assms(3,4) in \<open>simp_all add: elapsed_def\<close>)

lemma elapsed_Cons: "elapsed (a # acts) = elapsed [a] + elapsed acts"
  by (simp add: elapsed_def)

lemma detached_when_due:
  assumes "\<And>w. parent_of (run_timeout task w) x = None"
    and "x < length (nodes w)"
    and "((T, task) \<in> set (timeouts w) \<and> now w < T \<and> T \<le> now w + elapsed acts) \<or>
         parent_of w x = None"
  shows "parent_of (foldl act w acts) x = None"
  using assms(2,3)
proof (induction acts arbitrary: w)
  case Nil
  then show ?case by (auto simp add: elapsed_def)
next
  case (Cons a acts)
  have len: "x < length (nodes (act w a))"
    using Cons.prems(1) act_length [of w a] by simp
  have "((T, task) \<in> set (timeouts (act w a)) \<and> now (act w a) < T \<and>
          T \<le> now (act w a) + elapsed acts) \<or> parent_of (act w a) x = None"
  proof (cases "parent_of w x = None")
    case True
    then show ?thesis using act_detached [OF Cons.prems(1)] by simp
  next
    case False
    with Cons.prems(2) have p: "(T, task) \<in> set (timeouts w)" "now w < T"
      "T \<le> now w + elapsed (a # acts)" by simp_all
    show ?thesis
    proof (cases "T \<le> now w + elapsed [a]")
      case True
      from act_fires [OF assms(1) p(1) True p(2)] show ?thesis by simp
    next
      case False
      then have "now w + elapsed [a] < T" by simp
      with act_pending [OF p(1) this] p(3) show ?thesis
        by (simp add: act_now elapsed_Cons [of a acts])
    qed
  qed
  from Cons.IH [OF len this] show ?case by simp
qed

lemma hidden_forever:
  assumes "x < length (nodes w)" "style_get w x ''overflow'' = [Ident ''hidden'']"
  shows "style_get (foldl act w acts) x ''overflow'' = [Ident ''hidden'']"
  using assms
proof (induction acts arbitrary: w)
  case Nil
  then show ?case by simp
next
  case (Cons a acts)
  have "x < length (nodes (act w a))" using Cons.prems(1) act_length [of w a] by simp
  from Cons.IH [OF this act_hidden [OF Cons.prems]] show ?case by simp
qed

text \<open>
  Claim C9: when \<^verbatim>\<open>getBoundingClientRect\<close> throws, \<^verbatim>\<open>Utils.getBoundingRect\<close> catches the
  error, logs one warning and returns \<^verbatim>\<open>null\<close>; \<^verbatim>\<open>createParticleAnimation\<close> and
  \<^verbatim>\<open>createRippleEffect\<close> then return at once. Both are total functions of the model (nothing
  is thrown), and the world they return differs from the one they got in the console only:
  no node is created, no node is attached, no timer or frame callback is set.
\<close>

theorem geometry_failure:
  assumes "getBoundingClientRect e w = Inl err"
  shows "getBoundingRect e w =
       (None, w\<lparr>console := console w @ [Warn ''Error getting bounding rect:'' err]\<rparr>) \<and>
     createParticleAnimation e w =
       w\<lparr>console := console w @ [Warn ''Error getting bounding rect:'' err]\<rparr> \<and>
     createRippleEffect e ev w =
       w\<lparr>console := console w @ [Warn ''Error getting bounding rect:'' err]\<rparr> \<and>
     nodes (createParticleAnimation e w) = nodes w \<and>
     timeouts (createParticleAnimation e w) = timeouts w \<and>
     frames (createParticleAnimation e w) = frames w \<and>
     children (createParticleAnimation e w) (body w) = children w (body w) \<and>
     nodes (createRippleEffect e ev w) = nodes w \<and>
     timeouts (createRippleEffect e ev w) = timeouts w \<and>
     frames (createRippleEffect e ev w) = frames w \<and>
     children (createRippleEffect e ev w) e = children w e"
  unfolding createParticleAnimation_fail [OF assms] createRippleEffect_fail [OF assms]
    getBoundingRect_Inl [OF assms]
  by (simp add: children_def parent_of_def lookup_def)

text \<open>
  The element of the example document that the layout engine cannot measure, and a
  reference that is no element.
\<close>

theorem geometry_failure_witness:
  "getBoundingClientRect 3 demo_world = Inl LayoutError \<and>
   createParticleAnimation 3 demo_world =
     demo_world\<lparr>console := [Warn ''Error getting bounding rect:'' LayoutError]\<rparr> \<and>
   createRippleEffect 3 demo_click demo_world =
     demo_world\<lparr>console := [Warn ''Error getting bounding rect:'' LayoutError]\<rparr> \<and>
   getBoundingClientRect 7 demo_world = Inl TypeError \<and>
   createParticleAnimation 7 demo_world =
     demo_world\<lparr>console := [Warn ''Error getting bounding rect:'' TypeError]\<rparr> \<and>
   createRippleEffect 7 demo_click demo_world =
     demo_world\<lparr>console := [Warn ''Error getting bounding rect:'' TypeError]\<rparr>"
proof -
  have h: "getBoundingClientRect 3 demo_world = Inl LayoutError"
    "getBoundingClientRect 7 demo_world = Inl TypeError"
    by (simp_all add: getBoundingClientRect_def lookup_def demo_world_def demo_node_def)
  have c: "console demo_world = []" by (simp add: demo_world_def)
  from geometry_failure [OF h(1), of demo_click] geometry_failure [OF h(2), of demo_click] h
  show ?thesis by (simp add: c)
qed

lemma remove_particles_detaches:
  "x \<in> set ps \<Longrightarrow> parent_of (run_timeout (RemoveParticles ps) w) x = None"
  by (simp add: parent_of_remove_all)


text \<open>
  Claim C7: when the geometry of the source element can be read, \<^verbatim>\<open>createParticleAnimation\<close>
  creates exactly 8 nodes and changes no other; each is a particle placed at the centre of
  the element's rectangle and appended to the body; one timeout is set, due 1000 ms later,
  that detaches the 8 particles in whatever world it runs; and after any sequence of clicks,
  rendering frames and passing time in which at least 1000 ms pass, every one of the 8
  particles is detached, whether or not the frame callback that starts its transition ran.
\<close>

theorem particle_burst:
  assumes "getBoundingClientRect e w = Inr r"
  shows "length (nodes (createParticleAnimation e w)) = length (nodes w) + 8 \<and>
     take (length (nodes w)) (nodes (createParticleAnimation e w)) = nodes w \<and>
     children (createParticleAnimation e w) (body w) =
       children w (body w) @ [length (nodes w)..<length (nodes w) + 8] \<and>
     (i < 8 \<longrightarrow>
        lookup (createParticleAnimation e w) (length (nodes w) + i) =
          Some (particle_node (rect_left r + rect_width r / 2) (rect_top r + rect_height r / 2)
                  (body w)) \<and>
        parent_of (createParticleAnimation e w) (length (nodes w) + i) = Some (body w) \<and>
        style_get (createParticleAnimation e w) (length (nodes w) + i) ''left'' =
          [Dim (rect_left r + rect_width r / 2) ''px''] \<and>
        style_get (createParticleAnimation e w) (length (nodes w) + i) ''top'' =
          [Dim (rect_top r + rect_height r / 2) ''px'']) \<and>
     timeouts (createParticleAnimation e w) =
       timeouts w @ [(now w + 1000, RemoveParticles [length (nodes w)..<length (nodes w) + 8])] \<and>
     (i < 8 \<longrightarrow>
        parent_of (run_timeout (RemoveParticles [length (nodes w)..<length (nodes w) + 8]) w')
          (length (nodes w) + i) = None) \<and>
     (i < 8 \<and> 1000 \<le> elapsed acts \<longrightarrow>
        parent_of (foldl act (createParticleAnimation e w) acts) (length (nodes w) + i) = None)"
proof -
  let ?n = "length (nodes w)"
  let ?w1 = "createParticleAnimation e w"
  let ?pn = "particle_node (rect_left r + rect_width r / 2) (rect_top r + rect_height r / 2) (body w)"
  let ?task = "RemoveParticles [?n..<?n + 8]"
  note eq = createParticleAnimation_eq [OF assms, unfolded PARTICLES_COUNT_def PARTICLE_LIFE_def]
  have len: "length (nodes ?w1) = ?n + 8" and old: "take ?n (nodes ?w1) = nodes w"
    and tm: "timeouts ?w1 = timeouts w @ [(now w + 1000, ?task)]" and nw: "now ?w1 = now w"
    unfolding eq by simp_all
  have new: "lookup ?w1 (?n + i) = Some ?pn" if "i < 8" for i
    unfolding eq using that by (simp add: lookup_def nth_append)
  have par: "parent_of ?w1 (?n + i) = Some (body w)" if "i < 8" for i
    using new [OF that] by (simp add: parent_of_def particle_node_def)
  have sty: "style_get ?w1 (?n + i) ''left'' = [Dim (rect_left r + rect_width r / 2) ''px'']"
    "style_get ?w1 (?n + i) ''top'' = [Dim (rect_top r + rect_height r / 2) ''px'']"
    if "i < 8" for i
    using new [OF that] by (simp_all add: style_get_def particle_node_def)
  have oldp: "parent_of ?w1 x = parent_of w x" if "x < ?n" for x
    by (rule reads_cong(1), rule particles_old_nodes [OF that])
  have ch: "children ?w1 (body w) = children w (body w) @ [?n..<?n + 8]"
  proof -
    have "[0..<?n + 8] = [0..<?n] @ [?n..<?n + 8]" by (rule upt_add_eq_append) simp
    moreover have "filter (\<lambda>x. parent_of ?w1 x = Some (body w)) [0..<?n] =
        filter (\<lambda>x. parent_of w x = Some (body w)) [0..<?n]"
      by (rule filter_cong) (simp_all add: oldp)
    moreover have "filter (\<lambda>x. parent_of ?w1 x = Some (body w)) [?n..<?n + 8] = [?n..<?n + 8]"
    proof (rule filter_True, clarify)
      fix x assume "x \<in> set [?n..<?n + 8]"
      then have "?n \<le> x" "x < ?n + 8" by simp_all
      then obtain k where "x = ?n + k" "k < 8" by (auto dest: le_Suc_ex)
      with par [of k] show "parent_of ?w1 x = Some (body w)" by simp
    qed
    ultimately show ?thesis by (simp add: children_def len)
  qed
  have task: "parent_of (run_timeout ?task w') (?n + i) = None" if "i < 8" for i w'
    using that by (intro remove_particles_detaches) simp
  have due: "parent_of (foldl act ?w1 acts) (?n + i) = None" if "i < 8" "1000 \<le> elapsed acts"
  proof (rule detached_when_due [where task = ?task and T = "now w + 1000"])
    show "parent_of (run_timeout ?task w') (?n + i) = None" for w'
      using that(1) by (rule task)
    show "?n + i < length (nodes ?w1)" using that(1) len by simp
    show "((now w + 1000, ?task) \<in> set (timeouts ?w1) \<and> now ?w1 < now w + 1000 \<and>
        now w + 1000 \<le> now ?w1 + elapsed acts) \<or> parent_of ?w1 (?n + i) = None"
      using that(2) by (simp add: tm nw)
  qed
  show ?thesis
    using len old ch tm new [of i] par [of i] sty [of i] task [of i w'] due by (intro conjI impI) simp_all
qed

text \<open>
  A burst on the product card of the example document (centre 110, 70), followed by a
  frame, a click on the button and 1000 ms in two steps.
\<close>

theorem particle_burst_witness:
  "getBoundingClientRect 1 demo_world =
     Inr \<lparr>rect_left = 10, rect_top = 20, rect_width = 200, rect_height = 100\<rparr> \<and>
   length (nodes (createParticleAnimation 1 demo_world)) = 12 \<and>
   children (createParticleAnimation 1 demo_world) 0 = [1, 2, 3, 4, 5, 6, 7, 8, 9, 10, 11] \<and>
   style_get (createParticleAnimation 1 demo_world) 11 ''left'' = [Dim 110 ''px''] \<and>
   style_get (createParticleAnimation 1 demo_world) 11 ''top'' = [Dim 70 ''px''] \<and>
   parent_of (createParticleAnimation 1 demo_world) 11 = Some 0 \<and>
   timeouts (createParticleAnimation 1 demo_world) =
     [(6000, RemoveParticles [4, 5, 6, 7, 8, 9, 10, 11])] \<and>
   parent_of (run_timeout (RemoveParticles [4, 5, 6, 7, 8, 9, 10, 11])
      (createParticleAnimation 1 demo_world)) 11 = None \<and>
   parent_of (foldl act (createParticleAnimation 1 demo_world) demo_acts) 11 = None"
proof -
  have h: "getBoundingClientRect 1 demo_world =
      Inr \<lparr>rect_left = 10, rect_top = 20, rect_width = 200, rect_height = 100\<rparr>"
    by (simp add: getBoundingClientRect_def lookup_def demo_world_def demo_node_def)
  have w: "length (nodes demo_world) = 4" "body demo_world = 0" "now demo_world = 5000"
    "timeouts demo_world = []" "children demo_world 0 = [1, 2, 3]"
    by (simp_all add: demo_world_def demo_node_def children_def parent_of_def lookup_def
        upt_conv_Cons)
  have a: "1000 \<le> elapsed demo_acts" by (simp add: demo_acts_def elapsed_def)
  have u: "[4..<12] = [4, 5, 6, 7, 8, 9, 10, 11::nat]" by (simp add: upt_conv_Cons)
  from particle_burst [OF h, where i = 7 and acts = demo_acts
      and w' = "createParticleAnimation 1 demo_world"] h a
  show ?thesis by (simp add: w u)
qed

lemma remove_ripple_restores:
  "b < length (nodes w') \<Longrightarrow>
   style_get (run_timeout (RemoveRipple x b v) w') b ''position'' = v"
  by (simp add: style_get_style_set)




text \<open>
  Claim C10: the cleanup of a ripple writes \<^verbatim>\<open>position\<close> back and leaves \<^verbatim>\<open>overflow\<close> as it
  finds it. After \<^verbatim>\<open>createRippleEffect\<close> the overflow of the button is \<^verbatim>\<open>hidden\<close>, whatever it
  was before; it is still \<^verbatim>\<open>hidden\<close> after the cleanup, and after any sequence of clicks,
  rendering frames and passing time.
\<close>

theorem ripple_overflow_stays_hidden:
  assumes "getBoundingClientRect b w = Inr r"
  shows "style_get (createRippleEffect b ev w) b ''overflow'' = [Ident ''hidden''] \<and>
     style_get (run_timeout (RemoveRipple (length (nodes w)) b (style_get w b ''position''))
         (createRippleEffect b ev w)) b ''overflow'' = [Ident ''hidden''] \<and>
     style_get (run_timeout (RemoveRipple (length (nodes w)) b (style_get w b ''position''))
         (createRippleEffect b ev w)) b ''position'' = style_get w b ''position'' \<and>
     style_get (run_timeout (RemoveRipple (length (nodes w)) b (style_get w b ''position'')) w')
         b ''overflow'' = style_get w' b ''overflow'' \<and>
     style_get (foldl act (createRippleEffect b ev w) acts) b ''overflow'' = [Ident ''hidden'']"
proof -
  let ?w1 = "createRippleEffect b ev w"
  note rd = ripple_reads [OF assms, of ev]
  have b: "b < length (nodes w)" by (rule getBoundingClientRect_Inr(1) [OF assms])
  then have b1: "b < length (nodes ?w1)" by (simp add: rd)
  let ?task = "RemoveRipple (length (nodes w)) b (style_get w b ''position'')"
  have "style_get (run_timeout ?task ?w1) b ''overflow'' = [Ident ''hidden'']"
    using rd(3) by (simp only: overflow_run_timeout)
  moreover have "style_get (run_timeout ?task w') b ''overflow'' = style_get w' b ''overflow''"
    by (rule overflow_run_timeout)
  moreover have "style_get (run_timeout ?task ?w1) b ''position'' = style_get w b ''position''"
    using b1 by (rule remove_ripple_restores)
  ultimately show ?thesis
    using hidden_forever [OF b1 rd(3), of acts] rd(3) by (intro conjI)
qed

text \<open>The button of the example document starts with \<^verbatim>\<open>overflow: visible\<close>.\<close>

theorem ripple_overflow_stays_hidden_witness:
  "getBoundingClientRect 2 demo_world =
     Inr \<lparr>rect_left = 300, rect_top = 20, rect_width = 120, rect_height = 40\<rparr> \<and>
   style_get demo_world 2 ''overflow'' = [Ident ''visible''] \<and>
   style_get (createRippleEffect 2 demo_click demo_world) 2 ''overflow'' = [Ident ''hidden''] \<and>
   style_get (foldl act (createRippleEffect 2 demo_click demo_world) demo_acts) 2 ''overflow'' =
     [Ident ''hidden'']"
proof -
  have h: "getBoundingClientRect 2 demo_world =
      Inr \<lparr>rect_left = 300, rect_top = 20, rect_width = 120, rect_height = 40\<rparr>"
    by (simp add: getBoundingClientRect_def lookup_def demo_world_def demo_node_def)
  have w: "style_get demo_world 2 ''overflow'' = [Ident ''visible'']"
    by (simp add: demo_world_def demo_node_def style_get_def lookup_def)
  from ripple_overflow_stays_hidden [OF h, where ev = demo_click and acts = demo_acts] h w
  show ?thesis by simp
qed

section \<open>Image fallback: proofs\<close>

text \<open>\<^verbatim>\<open>includes\<close> is the test for a contiguous sublist.\<close>

lemma string_includes_sublist: "string_includes s sub \<longleftrightarrow> sublist sub s"
  by (induction s) (auto simp add: sublist_Cons_right)






section \<open>Smooth scrolling: proofs\<close>

lemmas nav_defs = click_def navigation_links_def anchors_def navigation_listener_def
  scroll_listener_def querySelector_def startsWith_def home_page_def home_link_def
  products_link_def main_element_def hero_section_def products_section_def letter_def
  name_char_def Let_def

lemma navigation_redirect:
  assumes "el_href link = Some ''#main-content''"
    and "css ''.hero'' = Some (\<lambda>e. ''hero'' \<in> set (el_classes e))"
    and "find (\<lambda>e. ''hero'' \<in> set (el_classes e)) doc = Some hero"
  shows "navigation_listener css doc link out =
     out\<lparr>defaultPrevented := True, scrolled := scrolled out @ [hero]\<rparr>"
  using assms by (simp add: navigation_listener_def querySelector_def startsWith_def Let_def)

lemma navigation_other:
  assumes "el_href link = Some (CHR ''#'' # name)" "CHR ''#'' # name \<noteq> ''#main-content''"
    and "css (CHR ''#'' # name) = Some (\<lambda>e. el_id e = name)"
    and "find (\<lambda>e. el_id e = name) doc = Some target"
  shows "navigation_listener css doc link out =
     out\<lparr>defaultPrevented := True, scrolled := scrolled out @ [target]\<rparr>"
  using assms by (simp add: navigation_listener_def querySelector_def startsWith_def Let_def)

text \<open>
  With both listeners bound to the link, a click calls \<^verbatim>\<open>scrollIntoView\<close> twice, on any page
  and with any engine that reads the two selectors as a class and an id.
\<close>

lemma click_main_content:
  assumes "link \<in> set (navigation_links doc)" "link \<in> set (anchors doc)"
    and "el_href link = Some ''#main-content''"
    and "css ''.hero'' = Some (\<lambda>e. ''hero'' \<in> set (el_classes e))"
    and "css ''#main-content'' = Some (\<lambda>e. el_id e = ''main-content'')"
    and "find (\<lambda>e. ''hero'' \<in> set (el_classes e)) doc = Some hero"
    and "find (\<lambda>e. el_id e = ''main-content'') doc = Some main"
  shows "scrolled (click css doc link) = [hero, main]"
  using assms
  by (simp add: click_def navigation_listener_def scroll_listener_def querySelector_def
      startsWith_def Let_def)

text \<open>
  Claim C8, on the example page. The listener of the NavigationController sends the link
  to \<^verbatim>\<open>#main-content\<close> to the hero section. The link is an anchor with an in-page
  \<^verbatim>\<open>href\<close>, so the listener of the ScrollController is bound to it as well and runs next: it
  looks up the \<^verbatim>\<open>href\<close> itself and calls \<^verbatim>\<open>scrollIntoView\<close> on the element whose id is
  \<^verbatim>\<open>main-content\<close>. For the link to \<^verbatim>\<open>#products\<close> both listeners find the same element.
\<close>

theorem main_content_click:
  "scrolled (click name_selectors home_page home_link) = [hero_section, main_element] \<and>
   hero_section \<noteq> main_element \<and>
   scrolled (navigation_listener name_selectors home_page home_link
              \<lparr>defaultPrevented = False, scrolled = [], uncaught = []\<rparr>) = [hero_section] \<and>
   scrolled (click name_selectors home_page products_link) = [products_section, products_section]"
  by (simp add: nav_defs)

end
